theory Spec2Isabelle
  imports Complex_Main "HOL-Library.Monad_Syntax"
begin

section \<open>The ruler overlay and camera transitions of the embedded viewer bridge\<close>

text \<open>
  This theory embeds the measurement-overlay and camera-transition code of
  \<^verbatim>\<open>source/website/embeddedwebsite.js\<close> (the functions registered by
  \<^verbatim>\<open>RegisterBridgeFunctions\<close>).

  JavaScript numbers are modelled as real numbers, and a computation that would produce
  \<^verbatim>\<open>Infinity\<close> or \<^verbatim>\<open>NaN\<close> in the source (a division by zero, the logarithm of a
  number that is not positive) has no result in the model: the function returns \<open>None\<close>.
  Operations are exact, except in the step planning of the ruler, where the choice between
  two steps can hinge on a rounding error: there the arithmetic is a parameter.

  An exception that leaves a frame callback or the load callback is reported by the
  browser and ends that callback only; the state keeps the list of the exceptions reported.
\<close>

subsection \<open>Numbers\<close>

text \<open>A division whose divisor may be zero: \<open>None\<close> stands for the non-finite result.\<close>

definition jsDiv :: "real \<Rightarrow> real \<Rightarrow> real option" where
  "jsDiv a b = (if b = 0 then None else Some (a / b))"

text \<open>\<^verbatim>\<open>Math.round\<close> rounds to the nearest integer, a tie towards plus infinity.\<close>

definition jsRound :: "real \<Rightarrow> int" where
  "jsRound v = \<lfloor>v + 1 / 2\<rfloor>"

subsection \<open>Tick step planning\<close>

text \<open>
  The arithmetic of a platform, as far as the step planning uses it: \<open>fl\<close> rounds the exact
  result of a multiplication or division to the number the platform returns, \<open>log10\<close> is
  its \<^verbatim>\<open>Math.log10\<close> and \<open>pow10 k\<close> its \<^verbatim>\<open>Math.pow(10, k)\<close>. In \<open>exact\<close> nothing is
  rounded.
\<close>

record arith =
  fl :: "real \<Rightarrow> real"
  log10 :: "real \<Rightarrow> real"
  pow10 :: "int \<Rightarrow> real"

definition exact :: arith where
  "exact = \<lparr>fl = (\<lambda>x. x), log10 = log 10, pow10 = (\<lambda>k. 10 powi k)\<rparr>"

text \<open>
  \<^verbatim>\<open>niceStep(length, divisions)\<close>, lines 561-571. \<^verbatim>\<open>divisions || 10\<close> replaces a zero
  by ten. For \<open>rough \<le> 0\<close> the source computes \<^verbatim>\<open>Math.log10\<close> of a number that is not
  positive (minus infinity or NaN), and then divides by a magnitude that is zero or NaN.
\<close>

definition niceStep :: "arith \<Rightarrow> real \<Rightarrow> real \<Rightarrow> real option" where
  "niceStep ar len divisions =
    (let rough = fl ar (len / (if divisions = 0 then 10 else divisions)) in
     if rough \<le> 0 then None
     else
       let mag = pow10 ar \<lfloor>log10 ar rough\<rfloor> in
       do {
         q \<leftarrow> jsDiv rough mag;
         let residual = fl ar q;
             nice = (if residual \<le> 1.5 then 1
                     else if residual \<le> 3.5 then 2
                     else if residual \<le> 7.5 then 5
                     else 10)
         in Some (fl ar (nice * mag))
       })"

text \<open>
  The step selection of \<^verbatim>\<open>addGraduatedTicks\<close>, lines 653-655:
  \<^verbatim>\<open>maxLabels = Math.max(2, Math.floor(length / (labelWidth * 1.5)))\<close>,
  \<^verbatim>\<open>targetDivs = Math.min(10, maxLabels)\<close>, \<^verbatim>\<open>step = niceStep(length, targetDivs)\<close>.
\<close>

definition targetDivs :: "arith \<Rightarrow> real \<Rightarrow> real \<Rightarrow> real option" where
  "targetDivs ar len labelWidth =
    do {
      q \<leftarrow> jsDiv len (fl ar (labelWidth * 1.5));
      let maxLabels = max 2 (of_int \<lfloor>fl ar q\<rfloor>);
      Some (min 10 maxLabels)
    }"

definition plannedStep :: "arith \<Rightarrow> real \<Rightarrow> real \<Rightarrow> real option" where
  "plannedStep ar len labelWidth = targetDivs ar len labelWidth \<bind> niceStep ar len"

subsection \<open>Tick number formatting\<close>

text \<open>
  \<^verbatim>\<open>String(n)\<close> for an integer-valued number \<open>n\<close>: its decimal digits, with a minus sign
  when negative. (JavaScript prints an integer this way while its magnitude is below
  \<open>10^21\<close>; beyond that it switches to exponent notation, which is not modelled.)
\<close>

definition digitChar :: "nat \<Rightarrow> char" where
  "digitChar d = ''0123456789'' ! d"

fun showNat :: "nat \<Rightarrow> string" where
  "showNat n = (if n < 10 then [digitChar n] else showNat (n div 10) @ [digitChar (n mod 10)])"

declare showNat.simps [simp del]

definition showInt :: "int \<Rightarrow> string" where
  "showInt n = (if n < 0 then CHR ''-'' # showNat (nat (- n)) else showNat (nat n))"

text \<open>
  \<^verbatim>\<open>val.toFixed(2)\<close>, for a magnitude below \<open>10^21\<close>: a minus sign when \<open>val < 0\<close>, then
  the digits of the integer \<open>n\<close> nearest to \<open>|val| * 100\<close> (the larger one on a tie), with
  a decimal point before the last two digits and at least one digit before the point.
\<close>

definition toFixed2 :: "real \<Rightarrow> string" where
  "toFixed2 v =
    (let n = nat \<lfloor>\<bar>v\<bar> * 100 + 1 / 2\<rfloor> in
     (if v < 0 then ''-'' else [])
       @ showNat (n div 100) @ ''.'' @ [digitChar (n mod 100 div 10), digitChar (n mod 10)])"

text \<open>
  \<^verbatim>\<open>s.replace(/\.?0+$/, '')\<close>: the leftmost position from which the rest of the string is an
  optional point followed by one or more zeros up to the end is cut off.
\<close>

definition zerosToEnd :: "string \<Rightarrow> bool" where
  "zerosToEnd s = (s \<noteq> [] \<and> list_all (\<lambda>c. c = CHR ''0'') s)"

definition matchesHere :: "string \<Rightarrow> bool" where
  "matchesHere s = (case s of [] \<Rightarrow> False | c # r \<Rightarrow> (c = CHR ''.'' \<and> zerosToEnd r) \<or> zerosToEnd s)"

fun stripZeros :: "string \<Rightarrow> string" where
  "stripZeros [] = []"
| "stripZeros (c # cs) = (if matchesHere (c # cs) then [] else c # stripZeros cs)"

text \<open>\<^verbatim>\<open>Number.isInteger(val)\<close>.\<close>

definition isInteger :: "real \<Rightarrow> bool" where
  "isInteger v = (of_int \<lfloor>v\<rfloor> = v)"

text \<open>\<^verbatim>\<open>formatTickNum(val)\<close>, lines 574-583.\<close>

definition formatTickNum :: "real \<Rightarrow> string" where
  "formatTickNum val =
    (if \<bar>val\<bar> < 1 / 10 ^ 9 then ''0''
     else if isInteger val \<or> \<bar>val - of_int (jsRound val)\<bar> < 1 / 10 ^ 9 then showInt (jsRound val)
     else stripZeros (toFixed2 val))"

text \<open>
  Reading a decimal numeral back (the source has no such function; it states what a
  formatted tick number denotes): an optional minus sign, digits, and optionally a point
  followed by digits.
\<close>

definition isDigit :: "char \<Rightarrow> bool" where
  "isDigit c = (48 \<le> (of_char c :: nat) \<and> (of_char c :: nat) \<le> 57)"

definition digitsValue :: "string \<Rightarrow> nat" where
  "digitsValue s = foldl (\<lambda>acc c. 10 * acc + ((of_char c :: nat) - 48)) 0 s"

definition parseUnsigned :: "string \<Rightarrow> real option" where
  "parseUnsigned s =
    (let ip = takeWhile (\<lambda>c. c \<noteq> CHR ''.'') s;
         rest = dropWhile (\<lambda>c. c \<noteq> CHR ''.'') s
     in if ip = [] \<or> \<not> list_all isDigit ip then None
        else if rest = [] then Some (real (digitsValue ip))
        else let fp = tl rest in
          if fp = [] \<or> \<not> list_all isDigit fp then None
          else Some (real (digitsValue ip) + real (digitsValue fp) / 10 ^ length fp))"

definition parseNumber :: "string \<Rightarrow> real option" where
  "parseNumber s =
    (case s of
       [] \<Rightarrow> None
     | c # r \<Rightarrow> if c = CHR ''-'' then map_option uminus (parseUnsigned r) else parseUnsigned s)"

text \<open>A value rounded to two decimals as \<^verbatim>\<open>toFixed(2)\<close> rounds it.\<close>

definition round2 :: "real \<Rightarrow> real" where
  "round2 v = (if v < 0 then - 1 else 1) * of_int \<lfloor>\<bar>v\<bar> * 100 + 1 / 2\<rfloor> / 100"


subsection \<open>Vectors\<close>

text \<open>
  \<^verbatim>\<open>THREE.Vector3\<close> and \<^verbatim>\<open>Coord3D\<close> values are triples. \<^verbatim>\<open>normalize()\<close> divides by
  \<^verbatim>\<open>this.length() || 1\<close>.
\<close>

type_synonym vec3 = "real \<times> real \<times> real"

fun vadd :: "vec3 \<Rightarrow> vec3 \<Rightarrow> vec3" where
  "vadd (a, b, c) (x, y, z) = (a + x, b + y, c + z)"

fun vsub :: "vec3 \<Rightarrow> vec3 \<Rightarrow> vec3" where
  "vsub (a, b, c) (x, y, z) = (a - x, b - y, c - z)"

fun vscale :: "real \<Rightarrow> vec3 \<Rightarrow> vec3" where
  "vscale s (x, y, z) = (s * x, s * y, s * z)"

fun vlength :: "vec3 \<Rightarrow> real" where
  "vlength (x, y, z) = sqrt (x * x + y * y + z * z)"

definition addScaledVector :: "vec3 \<Rightarrow> vec3 \<Rightarrow> real \<Rightarrow> vec3" where
  "addScaledVector p v s = vadd p (vscale s v)"

definition normalize :: "vec3 \<Rightarrow> vec3" where
  "normalize v = (let l = vlength v in vscale (1 / (if l = 0 then 1 else l)) v)"

definition lerp :: "vec3 \<Rightarrow> vec3 \<Rightarrow> real \<Rightarrow> vec3" where
  "lerp a b alpha = vadd a (vscale alpha (vsub b a))"

subsection \<open>Data model\<close>

datatype viewDirection = Front | Back | Left | Right | Top | Bottom

text \<open>The direction tokens of the bridge; any other string is no direction.\<close>

definition directionOf :: "string \<Rightarrow> viewDirection option" where
  "directionOf tok =
    (if tok = ''front'' then Some Front
     else if tok = ''back'' then Some Back
     else if tok = ''left'' then Some Left
     else if tok = ''right'' then Some Right
     else if tok = ''top'' then Some Top
     else if tok = ''bottom'' then Some Bottom
     else None)"

text \<open>
  \<^verbatim>\<open>rulerEdgeMap\<close>, lines 425-432:
  \<^verbatim>\<open>[xRulerY, xRulerZ, yRulerX, yRulerZ, zRulerX, zRulerY]\<close>, \<open>-1\<close> the min side, \<open>+1\<close> the max side.
\<close>

fun rulerEdgeMap :: "viewDirection \<Rightarrow> int list" where
  "rulerEdgeMap Front  = [-1,  1, -1,  1, -1, -1]"
| "rulerEdgeMap Back   = [-1, -1,  1, -1,  1, -1]"
| "rulerEdgeMap Left   = [-1, -1, -1, -1, -1, -1]"
| "rulerEdgeMap Right  = [-1,  1,  1,  1,  1, -1]"
| "rulerEdgeMap Top    = [ 1,  1, -1,  1, -1,  1]"
| "rulerEdgeMap Bottom = [-1, -1, -1, -1, -1, -1]"

record camera =
  eye :: vec3
  center :: vec3
  up :: vec3

text \<open>
  A \<^verbatim>\<open>THREE.Box3\<close> that holds at least one point: its corners are finite, and \<open>min\<close> is
  not above \<open>max\<close> on any axis. \<^verbatim>\<open>setFromObject\<close> computes such a box for every object
  that has geometry. (For an object without any geometry it leaves the empty box, whose
  corners are plus and minus infinity; the arithmetic of the ruler on those corners yields
  \<^verbatim>\<open>NaN\<close>, and objects without geometry are not modelled.)
\<close>

fun vmin :: "vec3 \<Rightarrow> vec3 \<Rightarrow> vec3" where
  "vmin (a, b, c) (x, y, z) = (min a x, min b y, min c z)"

fun vmax :: "vec3 \<Rightarrow> vec3 \<Rightarrow> vec3" where
  "vmax (a, b, c) (x, y, z) = (max a x, max b y, max c z)"

fun ordered3 :: "vec3 \<Rightarrow> vec3 \<Rightarrow> bool" where
  "ordered3 (a, b, c) (x, y, z) = (a \<le> x \<and> b \<le> y \<and> c \<le> z)"

typedef box3 = "{(lo, hi). ordered3 lo hi}"
  by (rule exI[of _ "((0, 0, 0), (0, 0, 0))"]) simp

setup_lifting type_definition_box3

lift_definition bmin :: "box3 \<Rightarrow> vec3" is fst .

lift_definition bmax :: "box3 \<Rightarrow> vec3" is snd .

text \<open>The box of two points (\<^verbatim>\<open>expandByPoint\<close>), and the union of two boxes.\<close>

lift_definition spanBox :: "vec3 \<Rightarrow> vec3 \<Rightarrow> box3" is "\<lambda>p q. (vmin p q, vmax p q)"
  by (auto simp: min_le_iff_disj le_max_iff_disj)

lift_definition unionBox :: "box3 \<Rightarrow> box3 \<Rightarrow> box3"
  is "\<lambda>a b. (vmin (fst a) (fst b), vmax (snd a) (snd b))"
  by (auto simp: min_le_iff_disj le_max_iff_disj)

text \<open>
  \<^verbatim>\<open>getSize\<close> is \<open>max - min\<close> (a box that holds a point is not empty), \<^verbatim>\<open>getCenter\<close> the
  midpoint, and the bounding sphere of a box has its center and half its diagonal.
\<close>

definition getSize :: "box3 \<Rightarrow> vec3" where
  "getSize b = vsub (bmax b) (bmin b)"

definition getCenter :: "box3 \<Rightarrow> vec3" where
  "getCenter b = vscale 0.5 (vadd (bmin b) (bmax b))"

type_synonym sphere = "vec3 \<times> real"

definition boxSphere :: "box3 \<Rightarrow> sphere" where
  "boxSphere b = (getCenter b, vlength (getSize b) * 0.5)"

text \<open>
  The loaded object, as far as the bridge reads it: the box of the whole object and the
  boxes of its meshes in traversal order (\<^verbatim>\<open>new THREE.Box3().setFromObject(obj)\<close>).
\<close>

record object3d =
  wholeBox :: box3
  meshBoxes :: "box3 list"

text \<open>
  \<^verbatim>\<open>findMeshByIndex\<close>, lines 531-546: no mesh for an index that is undefined, null,
  negative or beyond the meshes.
\<close>

definition findMeshByIndex :: "object3d \<Rightarrow> int option \<Rightarrow> box3 option" where
  "findMeshByIndex obj meshIndex =
    (case meshIndex of
       None \<Rightarrow> None
     | Some i \<Rightarrow>
         if i < 0 then None
         else if nat i < length (meshBoxes obj) then Some (meshBoxes obj ! nat i)
         else None)"

text \<open>
  A label sprite: the text drawn on it, its position, the height of its scale (the width
  is the height times the aspect ratio of the rendered text, which belongs to the canvas)
  and the opacity of its material. Sprites are shared between the overlay group and the
  label tables, so they live in a store and are referred to by address.
\<close>

record sprite =
  labelText :: string
  position :: vec3
  scaleY :: real
  opacity :: real

datatype child = Line vec3 vec3 | SpriteRef nat

text \<open>
  The overlay group: its children in the order they were added, and the opacity of the
  one line material that all its lines share (\<^verbatim>\<open>rulerLineMaterial\<close>).
\<close>

record group =
  children :: "child list"
  lineOpacity :: real

record tickEntry =
  tickSprite :: nat
  rawValue :: real
  fontSize :: real
  baseScale :: real

record labelSprites =
  spriteX :: "nat option"
  spriteY :: "nat option"
  spriteZ :: "nat option"

record rulerLabels =
  labelW :: string
  labelH :: string
  labelD :: string
  unitFactor :: "real option"

text \<open>The calls the bridge makes on the viewer (the render surface), in order.\<close>

datatype viewerCall =
    SetCamera camera
  | ClearExtra
  | AddExtraObject
  | Render
  | AdjustClippingPlanesToSphere
  | FitSphereToWindow
  | Orbit real real
  | NavigationUpdate
  | ViewerClear
  | SetMainObject
  | SetUpVector

text \<open>The exceptions of the source: reading a property of \<^verbatim>\<open>null\<close>.\<close>

datatype error = TypeError

text \<open>
  The closure of one \<^verbatim>\<open>setCameraDirection\<close> or \<^verbatim>\<open>resetCamera\<close> call: the values its
  \<^verbatim>\<open>animate\<close> callback captured, with the camera object it writes to and its own
  \<^verbatim>\<open>rulerRebuilt\<close> flag.
\<close>

record session =
  direction :: viewDirection
  upVec :: vec3
  sessionCamera :: camera
  dist :: real
  targetEye :: vec3
  startEye :: vec3
  startUp :: vec3
  hasRuler :: bool
  rulerRebuilt :: bool
  startTime :: real

text \<open>The closure of one \<^verbatim>\<open>startAutoRotate\<close> call.\<close>

record autoRotate =
  hSpeed :: real
  tiltDeg :: real
  elapsed :: real

datatype callback = DirectionFrame session | ResetFrame session | AutoRotateTick autoRotate

text \<open>
  The state of the bridge: the fields of the website object, the variables of
  \<^verbatim>\<open>RegisterBridgeFunctions\<close>, the camera held by the viewer, the calls made on the
  viewer, the frame callbacks registered with \<^verbatim>\<open>requestAnimationFrame\<close> under their
  handles, and the exceptions that left a callback uncaught.
\<close>

record state =
  threeObject :: "object3d option"
  justLoaded :: bool
  currentIsDark :: bool
  viewerCamera :: camera
  viewerCalls :: "viewerCall list"
  sprites :: "nat \<Rightarrow> sprite"
  nextSprite :: nat
  rulerGroup :: "group option"
  rulerLabelSprites :: labelSprites
  rulerTickSprites :: "tickEntry list"
  currentViewDirection :: viewDirection
  currentRulerMeshIndex :: "int option"
  lastRulerLabels :: "rulerLabels option"
  pending :: "(nat \<times> callback) list"
  nextHandle :: nat
  autoRotateId :: "nat option"
  autoRotatePrev :: "real option"
  uncaught :: "error list"

definition callViewer :: "viewerCall \<Rightarrow> state \<Rightarrow> state" where
  "callViewer c st = st\<lparr>viewerCalls := viewerCalls st @ [c]\<rparr>"

text \<open>An exception that nothing catches: the callback ends here.\<close>

definition raise :: "error \<Rightarrow> state \<Rightarrow> state" where
  "raise e st = st\<lparr>uncaught := uncaught st @ [e]\<rparr>"

text \<open>
  \<^verbatim>\<open>this.viewer.GetBoundingSphere(() => true)\<close>: the bounding sphere of the union of the
  boxes of the meshes of the viewer's main object, and \<^verbatim>\<open>null\<close> when the viewer has no
  main object or the object has no mesh. The main object is \<^verbatim>\<open>threeObject\<close>: both are
  cleared together when a load starts and set together when it finishes.
\<close>

definition getBoundingSphere :: "state \<Rightarrow> sphere option" where
  "getBoundingSphere st =
    (case threeObject st of
       None \<Rightarrow> None
     | Some obj \<Rightarrow>
         (case meshBoxes obj of
            [] \<Rightarrow> None
          | b # bs \<Rightarrow> Some (boxSphere (foldl unionBox b bs))))"

definition rulerLineOpacity :: "state \<Rightarrow> real" where
  "rulerLineOpacity st = (if currentIsDark st then 0.95 else 0.9)"

subsection \<open>Graduated ticks\<close>

text \<open>\<^verbatim>\<open>new THREE.Sprite(...)\<close>: a fresh address in the sprite store.\<close>

definition newSprite :: "sprite \<Rightarrow> state \<Rightarrow> nat \<times> state" where
  "newSprite s st =
    (nextSprite st,
     st\<lparr>sprites := (sprites st)(nextSprite st := s), nextSprite := Suc (nextSprite st)\<rparr>)"

text \<open>\<^verbatim>\<open>group.add(child)\<close>.\<close>

definition addChild :: "child \<Rightarrow> group \<Rightarrow> group" where
  "addChild c g = g\<lparr>children := children g @ [c]\<rparr>"

text \<open>\<^verbatim>\<open>rulerTickSprites.push({ sprite, rawValue, fontSize, baseScale })\<close>.\<close>

definition pushTick :: "nat \<Rightarrow> real \<Rightarrow> real \<Rightarrow> real \<Rightarrow> state \<Rightarrow> state" where
  "pushTick r v fs bs st =
    st\<lparr>rulerTickSprites := rulerTickSprites st
          @ [\<lparr>tickSprite = r, rawValue = v, fontSize = fs, baseScale = bs\<rparr>]\<rparr>"

text \<open>The locals of \<^verbatim>\<open>addGraduatedTicks\<close> that its tick loop reads.\<close>

record tickWalkEnv =
  wStart :: vec3
  wDir :: vec3
  wTickDir :: vec3
  wLabelOffsetDir :: vec3
  wMajorLen :: real
  wMinorLen :: real
  wLabelOffset :: real
  wNumScale :: real
  wTickFontSize :: real
  wLength :: real
  wStep :: real
  wTickStep :: real

text \<open>
  The body of the tick loop, lines 672-693, for the loop variable \<open>d\<close>; a
  \<^verbatim>\<open>continue\<close> leaves the group and the state as they are.
\<close>

definition tickBody :: "tickWalkEnv \<Rightarrow> real \<Rightarrow> group \<times> state \<Rightarrow> (group \<times> state) option" where
  "tickBody w d gs =
    (if d < - (1 / 10 ^ 10) then Some gs
     else do {
       q \<leftarrow> jsDiv d (wStep w);
       let t = min d (wLength w);
           isMajor = (\<bar>of_int (jsRound q) * wStep w - d\<bar> < wStep w * 0.01)
       in
         if t < wStep w * 0.05 \<or> t > wLength w - wStep w * 0.05 then Some gs
         else
           let (g, st) = gs;
               len = (if isMajor then wMajorLen w else wMinorLen w);
               pos = addScaledVector (wStart w) (wDir w) t;
               p1 = addScaledVector pos (wTickDir w) (- len);
               p2 = addScaledVector pos (wTickDir w) len;
               g1 = addChild (Line p1 p2) g
           in
             if isMajor then
               let (r, st1) = newSprite
                     \<lparr>labelText = formatTickNum t,
                      position = addScaledVector pos (wLabelOffsetDir w) (wLabelOffset w),
                      scaleY = wNumScale w, opacity = 1\<rparr> st
               in Some (addChild (SpriteRef r) g1,
                        pushTick r t (wTickFontSize w) (wNumScale w) st1)
             else Some (g1, st)
     })"

text \<open>
  The loop \<^verbatim>\<open>for (let d = 0; d <= length + step * 0.001; d += tickStep)\<close>. It never ends
  when \<open>tickStep\<close> is not positive; then the walk has no result.
\<close>

partial_function (option) tickWalk ::
  "tickWalkEnv \<Rightarrow> real \<Rightarrow> group \<times> state \<Rightarrow> (group \<times> state) option" where
  "tickWalk w d gs =
    (if d \<le> wLength w + wStep w * 0.001
     then tickBody w d gs \<bind> tickWalk w (d + wTickStep w)
     else Some gs)"

text \<open>\<^verbatim>\<open>addGraduatedTicks\<close>, lines 642-706, in exact arithmetic.\<close>

definition addGraduatedTicks ::
  "group \<Rightarrow> vec3 \<Rightarrow> vec3 \<Rightarrow> vec3 \<Rightarrow> vec3 \<Rightarrow> real \<Rightarrow> real \<Rightarrow> real \<Rightarrow> real \<Rightarrow> state
     \<Rightarrow> (group \<times> state) option" where
  "addGraduatedTicks g start endpt tickDir labelOffsetDir majorLen minorLen labelOffset
      spriteScale st =
    (let axis = vsub endpt start;
         len = vlength axis
     in
       if len < 1 / 10 ^ 10 then Some (g, st)
       else
         let dir = normalize axis;
             tickFontSize = 16;
             numScale = spriteScale * 0.35;
             labelWidth = numScale * 3
         in do {
           step \<leftarrow> plannedStep exact len labelWidth;
           let showMinor = (step / 2 > labelWidth * 1.2);
               tickStep = (if showMinor then step / 2 else step);
               (r0, st0) = newSprite
                   \<lparr>labelText = ''0'',
                    position = addScaledVector start labelOffsetDir labelOffset,
                    scaleY = numScale, opacity = 1\<rparr> st;
               g0 = addChild (SpriteRef r0) g;
               st0' = pushTick r0 0 tickFontSize numScale st0;
               w = \<lparr>wStart = start, wDir = dir, wTickDir = tickDir,
                    wLabelOffsetDir = labelOffsetDir, wMajorLen = majorLen,
                    wMinorLen = minorLen, wLabelOffset = labelOffset, wNumScale = numScale,
                    wTickFontSize = tickFontSize, wLength = len, wStep = step,
                    wTickStep = tickStep\<rparr>
           in do {
             (g1, st1) \<leftarrow> tickWalk w 0 (g0, st0');
             let (r2, st2) = newSprite
                   \<lparr>labelText = formatTickNum len,
                    position = addScaledVector endpt labelOffsetDir labelOffset,
                    scaleY = numScale, opacity = 1\<rparr> st1
             in Some (addChild (SpriteRef r2) g1, pushTick r2 len tickFontSize numScale st2)
           }
         })"

subsection \<open>The overlay: opacity, labels, build\<close>

fun isLine :: "child \<Rightarrow> bool" where
  "isLine (Line a b) = True"
| "isLine (SpriteRef r) = False"

fun fadeChild :: "real \<Rightarrow> (nat \<Rightarrow> sprite) \<Rightarrow> child \<Rightarrow> (nat \<Rightarrow> sprite)" where
  "fadeChild factor h (Line a b) = h"
| "fadeChild factor h (SpriteRef r) = h(r := (h r)\<lparr>opacity := factor\<rparr>)"

text \<open>
  \<^verbatim>\<open>setRulerGroupOpacity(rulerGroup, factor)\<close>, lines 708-718: every child with a material
  gets the factor as opacity, a line (through the shared line material) the factor times
  \<^verbatim>\<open>rulerLineOpacity()\<close>.
\<close>

definition setRulerGroupOpacity :: "real \<Rightarrow> state \<Rightarrow> state" where
  "setRulerGroupOpacity factor st =
    (case rulerGroup st of
       None \<Rightarrow> st
     | Some g \<Rightarrow>
         st\<lparr>rulerGroup :=
              Some (g\<lparr>lineOpacity :=
                        (if list_ex isLine (children g) then rulerLineOpacity st * factor
                         else lineOpacity g)\<rparr>),
            sprites := foldl (fadeChild factor) (sprites st) (children g)\<rparr>)"

text \<open>
  \<^verbatim>\<open>updateSpriteText\<close> redraws a main label with a new text; \<^verbatim>\<open>updateTickSpriteText\<close>
  redraws a tick number and resets its scale to the base scale.
\<close>

definition updateSpriteText :: "nat option \<Rightarrow> string \<Rightarrow> state \<Rightarrow> state" where
  "updateSpriteText sp txt st =
    (case sp of
       None \<Rightarrow> st
     | Some r \<Rightarrow> st\<lparr>sprites := (sprites st)(r := (sprites st r)\<lparr>labelText := txt\<rparr>)\<rparr>)"

definition updateTickSpriteText :: "nat \<Rightarrow> string \<Rightarrow> real \<Rightarrow> state \<Rightarrow> state" where
  "updateTickSpriteText r txt bs st =
    st\<lparr>sprites := (sprites st)(r := (sprites st r)\<lparr>labelText := txt, scaleY := bs\<rparr>)\<rparr>"

text \<open>\<^verbatim>\<open>window.updateRulerLabels\<close>, lines 964-986.\<close>

definition updateRulerLabels :: "string \<Rightarrow> string \<Rightarrow> string \<Rightarrow> real option \<Rightarrow> state \<Rightarrow> state" where
  "updateRulerLabels widthLabel heightLabel depthLabel uf st =
    (let st1 = st\<lparr>lastRulerLabels :=
                    Some \<lparr>labelW = widthLabel, labelH = heightLabel, labelD = depthLabel,
                          unitFactor = uf\<rparr>\<rparr>;
         st2 = updateSpriteText (spriteX (rulerLabelSprites st1)) widthLabel st1;
         st3 = updateSpriteText (spriteY (rulerLabelSprites st2)) heightLabel st2;
         st4 = updateSpriteText (spriteZ (rulerLabelSprites st3)) depthLabel st3;
         st5 = (case uf of
                  None \<Rightarrow> st4
                | Some f \<Rightarrow>
                    foldl (\<lambda>s e. updateTickSpriteText (tickSprite e)
                                     (formatTickNum (rawValue e * f)) (baseScale e) s)
                      st4 (rulerTickSprites st4))
     in callViewer Render st5)"

text \<open>\<^verbatim>\<open>this.viewer.SetCamera(camera)\<close>.\<close>

definition setCamera :: "camera \<Rightarrow> state \<Rightarrow> state" where
  "setCamera cam st = callViewer (SetCamera cam) (st\<lparr>viewerCamera := cam\<rparr>)"

text \<open>The sizes that \<^verbatim>\<open>setScaleRuler\<close> derives from the box, lines 790-800.\<close>

fun maxDim :: "vec3 \<Rightarrow> real" where
  "maxDim (sx, sy, sz) = max sx (max sy sz)"

definition majorTick :: "vec3 \<Rightarrow> real" where "majorTick dims = maxDim dims * 0.038"
definition minorTick :: "vec3 \<Rightarrow> real" where "minorTick dims = maxDim dims * 0.022"
definition endTick :: "vec3 \<Rightarrow> real" where "endTick dims = maxDim dims * 0.042"
definition spriteScale :: "vec3 \<Rightarrow> real" where "spriteScale dims = maxDim dims * 0.055"

definition isTopBottom :: "viewDirection \<Rightarrow> bool" where
  "isTopBottom d = (d = Top \<or> d = Bottom)"

definition isLeftRight :: "viewDirection \<Rightarrow> bool" where
  "isLeftRight d = (d = Left \<or> d = Right)"

text \<open>Lines 807-809: a ruler is reversed so that its zero is at the common corner.\<close>

definition reverseX :: "viewDirection \<Rightarrow> bool" where "reverseX d = (rulerEdgeMap d ! 2 = 1)"
definition reverseY :: "viewDirection \<Rightarrow> bool" where "reverseY d = (rulerEdgeMap d ! 0 = 1)"
definition reverseZ :: "viewDirection \<Rightarrow> bool" where "reverseZ d = (rulerEdgeMap d ! 1 = 1)"

text \<open>The X axis ruler, lines 812-857.\<close>

definition xAxisRuler :: "viewDirection \<Rightarrow> box3 \<Rightarrow> group \<times> state \<Rightarrow> (group \<times> state) option" where
  "xAxisRuler d box gs =
    (case (gs, bmin box, getSize box) of
      ((g, st), (mx, my, mz), (sx, sy, sz)) \<Rightarrow>
        let dims = (sx, sy, sz);
            sides = rulerEdgeMap d;
            offsetY = sy * 0.08;
            offsetZ = sz * 0.08;
            xY = (if sides ! 0 = - 1 then my - offsetY else my + sy + offsetY);
            xZ = (if sides ! 1 = 1 then mz + sz + offsetZ else mz - offsetZ);
            startX = (if reverseX d then (mx + sx, xY, xZ) else (mx, xY, xZ));
            endX = (if reverseX d then (mx, xY, xZ) else (mx + sx, xY, xZ));
            g1 = addChild (Line startX endX) g;
            xTickVec = (if isTopBottom d then (0, 0, endTick dims) else (0, endTick dims, 0));
            g2 = addChild (Line (vsub startX xTickVec) (vadd startX xTickVec)) g1;
            g3 = addChild (Line (vsub endX xTickVec) (vadd endX xTickVec)) g2;
            tickDirX = (if isTopBottom d then (0, 0, - of_int (sides ! 1))
                        else (0, - of_int (sides ! 0), 0));
            labelDirX = (if isTopBottom d then (0, 0, of_int (sides ! 1))
                         else (0, of_int (sides ! 0), 0))
        in do {
          (g4, st4) \<leftarrow> addGraduatedTicks g3 startX endX tickDirX labelDirX (majorTick dims)
                          (minorTick dims) (endTick dims * 2) (spriteScale dims) st;
          let mid = lerp startX endX 0.5;
              pos = (if isTopBottom d then vadd mid (0, 0, of_int (sides ! 1) * endTick dims * 4.5)
                     else vadd mid (0, of_int (sides ! 0) * endTick dims * 4.5, 0));
              (r, st5) = newSprite \<lparr>labelText = toFixed2 sx, position = pos,
                                    scaleY = spriteScale dims, opacity = 1\<rparr> st4
          in Some (addChild (SpriteRef r) g4,
                   st5\<lparr>rulerLabelSprites := (rulerLabelSprites st5)\<lparr>spriteX := Some r\<rparr>\<rparr>)
        })"

text \<open>The Y axis ruler, lines 860-905.\<close>

definition yAxisRuler :: "viewDirection \<Rightarrow> box3 \<Rightarrow> group \<times> state \<Rightarrow> (group \<times> state) option" where
  "yAxisRuler d box gs =
    (case (gs, bmin box, getSize box) of
      ((g, st), (mx, my, mz), (sx, sy, sz)) \<Rightarrow>
        let dims = (sx, sy, sz);
            sides = rulerEdgeMap d;
            offsetX = sx * 0.08;
            offsetZ = sz * 0.08;
            yX = (if sides ! 2 = - 1 then mx - offsetX else mx + sx + offsetX);
            yZ = (if sides ! 3 = 1 then mz + sz + offsetZ else mz - offsetZ);
            startY = (if reverseY d then (yX, my + sy, yZ) else (yX, my, yZ));
            endY = (if reverseY d then (yX, my, yZ) else (yX, my + sy, yZ));
            g1 = addChild (Line startY endY) g;
            yTickVec = (if isLeftRight d then (0, 0, endTick dims) else (endTick dims, 0, 0));
            g2 = addChild (Line (vsub startY yTickVec) (vadd startY yTickVec)) g1;
            g3 = addChild (Line (vsub endY yTickVec) (vadd endY yTickVec)) g2;
            tickDirY = (if isLeftRight d then (0, 0, - of_int (sides ! 3))
                        else (- of_int (sides ! 2), 0, 0));
            labelDirY = (if isLeftRight d then (0, 0, of_int (sides ! 3))
                         else (of_int (sides ! 2), 0, 0))
        in do {
          (g4, st4) \<leftarrow> addGraduatedTicks g3 startY endY tickDirY labelDirY (majorTick dims)
                          (minorTick dims) (endTick dims * 2) (spriteScale dims) st;
          let mid = lerp startY endY 0.5;
              pos = (if isLeftRight d then vadd mid (0, 0, of_int (sides ! 3) * endTick dims * 4.5)
                     else vadd mid (of_int (sides ! 2) * endTick dims * 4.5, 0, 0));
              (r, st5) = newSprite \<lparr>labelText = toFixed2 sy, position = pos,
                                    scaleY = spriteScale dims, opacity = 1\<rparr> st4
          in Some (addChild (SpriteRef r) g4,
                   st5\<lparr>rulerLabelSprites := (rulerLabelSprites st5)\<lparr>spriteY := Some r\<rparr>\<rparr>)
        })"

text \<open>The Z axis ruler, lines 908-953.\<close>

definition zAxisRuler :: "viewDirection \<Rightarrow> box3 \<Rightarrow> group \<times> state \<Rightarrow> (group \<times> state) option" where
  "zAxisRuler d box gs =
    (case (gs, bmin box, getSize box) of
      ((g, st), (mx, my, mz), (sx, sy, sz)) \<Rightarrow>
        let dims = (sx, sy, sz);
            sides = rulerEdgeMap d;
            offsetX = sx * 0.08;
            offsetY = sy * 0.08;
            zX = (if sides ! 4 = - 1 then mx - offsetX else mx + sx + offsetX);
            zY = (if sides ! 5 = - 1 then my - offsetY else my + sy + offsetY);
            startZ = (if reverseZ d then (zX, zY, mz + sz) else (zX, zY, mz));
            endZ = (if reverseZ d then (zX, zY, mz) else (zX, zY, mz + sz));
            g1 = addChild (Line startZ endZ) g;
            zTickVec = (if isTopBottom d then (endTick dims, 0, 0) else (0, endTick dims, 0));
            g2 = addChild (Line (vsub startZ zTickVec) (vadd startZ zTickVec)) g1;
            g3 = addChild (Line (vsub endZ zTickVec) (vadd endZ zTickVec)) g2;
            tickDirZ = (if isTopBottom d then (- of_int (sides ! 4), 0, 0)
                        else (0, - of_int (sides ! 5), 0));
            labelDirZ = (if isTopBottom d then (of_int (sides ! 4), 0, 0)
                         else (0, of_int (sides ! 5), 0))
        in do {
          (g4, st4) \<leftarrow> addGraduatedTicks g3 startZ endZ tickDirZ labelDirZ (majorTick dims)
                          (minorTick dims) (endTick dims * 2) (spriteScale dims) st;
          let mid = lerp startZ endZ 0.5;
              pos = (if isTopBottom d then vadd mid (of_int (sides ! 4) * endTick dims * 4.5, 0, 0)
                     else vadd mid (0, of_int (sides ! 5) * endTick dims * 4.5, 0));
              (r, st5) = newSprite \<lparr>labelText = toFixed2 sz, position = pos,
                                    scaleY = spriteScale dims, opacity = 1\<rparr> st4
          in Some (addChild (SpriteRef r) g4,
                   st5\<lparr>rulerLabelSprites := (rulerLabelSprites st5)\<lparr>spriteZ := Some r\<rparr>\<rparr>)
        })"

text \<open>
  Lines 760-772 of \<^verbatim>\<open>setScaleRuler\<close>: on the first enabling after a load the camera is
  put at eye level in front of the object, and the view direction becomes front.
\<close>

definition eyeLevelAfterLoad :: "state \<Rightarrow> state" where
  "eyeLevelAfterLoad st =
    (let camera = viewerCamera st;
         dist = vlength (vsub (eye camera) (center camera));
         camera' = camera\<lparr>eye := vadd (center camera) (0, 0, dist), up := (0, 1, 0)\<rparr>;
         st1 = setCamera camera' (st\<lparr>justLoaded := False\<rparr>);
         st2 = callViewer AdjustClippingPlanesToSphere st1
     in st2\<lparr>currentViewDirection := Front\<rparr>)"

text \<open>\<^verbatim>\<open>window.setScaleRuler\<close>, lines 744-962.\<close>

definition setScaleRuler :: "bool \<Rightarrow> int option \<Rightarrow> state \<Rightarrow> state option" where
  "setScaleRuler enabled meshIndex st0 =
    (case threeObject st0 of
       None \<Rightarrow> Some st0
     | Some obj \<Rightarrow>
         let st = st0\<lparr>currentRulerMeshIndex := meshIndex\<rparr> in
         if \<not> enabled then
           (if rulerGroup st \<noteq> None then
              Some (callViewer Render
                ((callViewer ClearExtra st)
                   \<lparr>rulerGroup := None,
                    rulerLabelSprites := \<lparr>spriteX = None, spriteY = None, spriteZ = None\<rparr>,
                    rulerTickSprites := []\<rparr>))
            else Some st)
         else
           let st1 = (if justLoaded st then eyeLevelAfterLoad st else st);
               st2 = (if rulerGroup st1 \<noteq> None
                      then (callViewer ClearExtra st1)\<lparr>rulerGroup := None, rulerTickSprites := []\<rparr>
                      else st1);
               box = (case findMeshByIndex obj meshIndex of Some b \<Rightarrow> b | None \<Rightarrow> wholeBox obj);
               grp = \<lparr>children = [], lineOpacity = rulerLineOpacity st2\<rparr>;
               d = currentViewDirection st2
           in do {
             gx \<leftarrow> xAxisRuler d box (grp, st2);
             gy \<leftarrow> yAxisRuler d box gx;
             (g, st3) \<leftarrow> zAxisRuler d box gy;
             let st4 = callViewer AddExtraObject (st3\<lparr>rulerGroup := Some g\<rparr>) in
             Some (case lastRulerLabels st4 of
                     None \<Rightarrow> st4
                   | Some l \<Rightarrow> updateRulerLabels (labelW l) (labelH l) (labelD l) (unitFactor l) st4)
           })"

subsection \<open>Frame callbacks\<close>

text \<open>
  \<^verbatim>\<open>requestAnimationFrame(cb)\<close> registers the callback for the next frame under a fresh
  handle and returns the handle; \<^verbatim>\<open>cancelAnimationFrame(h)\<close> removes the registration.
\<close>

definition requestAnimationFrame :: "callback \<Rightarrow> state \<Rightarrow> nat \<times> state" where
  "requestAnimationFrame cb st =
    (nextHandle st,
     st\<lparr>pending := pending st @ [(nextHandle st, cb)], nextHandle := Suc (nextHandle st)\<rparr>)"

definition cancelAnimationFrame :: "nat \<Rightarrow> state \<Rightarrow> state" where
  "cancelAnimationFrame h st = st\<lparr>pending := filter (\<lambda>p. fst p \<noteq> h) (pending st)\<rparr>"

subsection \<open>Directed camera transitions\<close>

text \<open>The direction table of \<^verbatim>\<open>setCameraDirection\<close>, lines 1023-1031: direction and up vector.\<close>

fun directionTable :: "viewDirection \<Rightarrow> vec3 \<times> vec3" where
  "directionTable Front  = ((0, 0, 1),   (0, 1, 0))"
| "directionTable Back   = ((0, 0, - 1), (0, 1, 0))"
| "directionTable Left   = ((- 1, 0, 0), (0, 1, 0))"
| "directionTable Right  = ((1, 0, 0),   (0, 1, 0))"
| "directionTable Top    = ((0, 1, 0),   (0, 0, - 1))"
| "directionTable Bottom = ((0, - 1, 0), (0, 0, 1))"

text \<open>
  \<^verbatim>\<open>window.setCameraDirection\<close>, lines 1021-1105. The values that a call captures for its
  \<^verbatim>\<open>animate\<close> callback, lines 1033-1045: \<open>now\<close> is what \<^verbatim>\<open>performance.now()\<close> returns,
  and the camera that \<^verbatim>\<open>GetCamera()\<close> returns is a copy of the viewer's camera.
\<close>

definition directionSession :: "viewDirection \<Rightarrow> real \<Rightarrow> state \<Rightarrow> session" where
  "directionSession d now st =
    (case (directionTable d, center (viewerCamera st)) of
      ((dirVec, upV), (cx, cy, cz)) \<Rightarrow>
        let camera = viewerCamera st;
            dst = vlength (vsub (eye camera) (cx, cy, cz));
            tgt = (cx + fst dirVec * dst, cy + fst (snd dirVec) * dst,
                   cz + snd (snd dirVec) * dst)
        in \<lparr>direction = d, upVec = upV, sessionCamera = camera, dist = dst,
            targetEye = tgt, startEye = eye camera, startUp = up camera,
            hasRuler = (rulerGroup st \<noteq> None), rulerRebuilt = False,
            startTime = now\<rparr>)"

text \<open>An unknown direction token is ignored; otherwise the callback is registered.\<close>

definition setCameraDirection :: "string \<Rightarrow> real \<Rightarrow> state \<Rightarrow> state" where
  "setCameraDirection tok now st =
    (case directionOf tok of
       None \<Rightarrow> st
     | Some d \<Rightarrow> snd (requestAnimationFrame (DirectionFrame (directionSession d now st)) st))"

text \<open>
  Lines 1050-1060: the eye is interpolated and, when it is off the center, put back at the
  captured distance from it.
\<close>

definition orbitEye :: "session \<Rightarrow> real \<Rightarrow> vec3" where
  "orbitEye s t =
    (case (startEye s, targetEye s, center (sessionCamera s)) of
      ((sx, sy, sz), (tx, ty, tz), (cx, cy, cz)) \<Rightarrow>
        let nx = sx + (tx - sx) * t;
            ny = sy + (ty - sy) * t;
            nz = sz + (tz - sz) * t;
            dx = nx - cx; dy = ny - cy; dz = nz - cz;
            curDist = sqrt (dx * dx + dy * dy + dz * dz)
        in if curDist > 0
           then (cx + dx / curDist * dist s, cy + dy / curDist * dist s, cz + dz / curDist * dist s)
           else (nx, ny, nz))"

text \<open>Lines 1062-1067: the up vector is interpolated and, when it is not zero, normalised.\<close>

definition blendUp :: "session \<Rightarrow> real \<Rightarrow> vec3" where
  "blendUp s t =
    (case (startUp s, upVec s) of
      ((sx, sy, sz), (vx, vy, vz)) \<Rightarrow>
        let ux = sx + (vx - sx) * t;
            uy = sy + (vy - sy) * t;
            uz = sz + (vz - sz) * t;
            uLen = sqrt (ux * ux + uy * uy + uz * uz)
        in if uLen > 0 then (ux / uLen, uy / uLen, uz / uLen) else (ux, uy, uz))"

text \<open>The progress of a transition at a frame time: \<open>raw\<close> and its cubic ease-out.\<close>

definition rawProgress :: "session \<Rightarrow> real \<Rightarrow> real" where
  "rawProgress s now = min ((now - startTime s) / 400) 1"

definition easeOut :: "real \<Rightarrow> real" where
  "easeOut raw = 1 - (1 - raw) * (1 - raw) * (1 - raw)"

text \<open>
  The ruler crossfade of \<^verbatim>\<open>animate\<close>, lines 1073-1086, with the direction that the
  rebuild makes current.
\<close>

definition crossfade :: "viewDirection \<Rightarrow> real \<Rightarrow> session \<Rightarrow> state \<Rightarrow> (session \<times> state) option" where
  "crossfade d raw s st =
    (if hasRuler s then
       do {
         (s1, st1) \<leftarrow>
           (if raw < 0.5 then Some (s, setRulerGroupOpacity (1 - raw * 2) st)
            else if \<not> rulerRebuilt s then
              do {
                st' \<leftarrow> setScaleRuler True (currentRulerMeshIndex st)
                         (st\<lparr>currentViewDirection := d\<rparr>);
                Some (s\<lparr>rulerRebuilt := True\<rparr>, setRulerGroupOpacity 0 st')
              }
            else Some (s, st));
         Some (s1, if raw \<ge> 0.5 then setRulerGroupOpacity ((raw - 0.5) * 2) st1 else st1)
       }
     else Some (s, st))"

text \<open>
  Lines 1093-1101 (and 1207-1215): what a transition does to the overlay on its last frame.
\<close>

definition finishRuler :: "viewDirection \<Rightarrow> session \<Rightarrow> state \<Rightarrow> state option" where
  "finishRuler d s st =
    (let st1 = (if \<not> rulerRebuilt s then st\<lparr>currentViewDirection := d\<rparr> else st) in
     if hasRuler s then
       do {
         st2 \<leftarrow> (if \<not> rulerRebuilt s then setScaleRuler True (currentRulerMeshIndex st1) st1
                 else Some st1);
         Some (setRulerGroupOpacity 1 st2)
       }
     else Some st1)"

text \<open>The \<^verbatim>\<open>animate\<close> callback of \<^verbatim>\<open>setCameraDirection\<close>, lines 1046-1103.\<close>

definition animate :: "session \<Rightarrow> real \<Rightarrow> state \<Rightarrow> state option" where
  "animate s now st =
    (let raw = rawProgress s now;
         t = easeOut raw;
         cam = (sessionCamera s)\<lparr>eye := orbitEye s t, up := blendUp s t\<rparr>;
         s1 = s\<lparr>sessionCamera := cam\<rparr>;
         st1 = setCamera cam st
     in do {
       (s2, st2) \<leftarrow> crossfade (direction s1) raw s1 st1;
       if raw < 1 then Some (snd (requestAnimationFrame (DirectionFrame s2) st2))
       else finishRuler (direction s2) s2 (callViewer AdjustClippingPlanesToSphere st2)
     })"

subsection \<open>Camera reset\<close>

text \<open>
  \<^verbatim>\<open>window.resetCamera\<close>, lines 1137-1219. The values that a call captures, lines
  1138-1159: the target is at eye level when a ruler is shown, otherwise 15 degrees above it.
\<close>

definition resetSession :: "real \<Rightarrow> state \<Rightarrow> session" where
  "resetSession now st =
    (case center (viewerCamera st) of
      (cx, cy, cz) \<Rightarrow>
        let camera = viewerCamera st;
            dst = vlength (vsub (eye camera) (cx, cy, cz));
            elev = 15 * pi / 180;
            tgt = (if rulerGroup st \<noteq> None then (cx, cy, cz + dst)
                   else (cx, cy + sin elev * dst, cz + cos elev * dst))
        in \<lparr>direction = Front, upVec = (0, 1, 0), sessionCamera = camera, dist = dst,
            targetEye = tgt, startEye = eye camera, startUp = up camera,
            hasRuler = (rulerGroup st \<noteq> None), rulerRebuilt = False,
            startTime = now\<rparr>)"

definition resetCamera :: "real \<Rightarrow> state \<Rightarrow> state" where
  "resetCamera now st = snd (requestAnimationFrame (ResetFrame (resetSession now st)) st)"

text \<open>
  The \<^verbatim>\<open>animate\<close> callback of \<^verbatim>\<open>resetCamera\<close>, lines 1160-1217. On its last frame it
  reads the radius of the bounding sphere, line 1204, which raises a \<^verbatim>\<open>TypeError\<close> when
  there is no sphere. (\<^verbatim>\<open>FitSphereToWindow(sphere, true)\<close> starts an animated move of the
  camera inside the viewer; that move is not modelled.)
\<close>

definition animateReset :: "session \<Rightarrow> real \<Rightarrow> state \<Rightarrow> state option" where
  "animateReset s now st =
    (let raw = rawProgress s now;
         t = easeOut raw;
         cam = (sessionCamera s)\<lparr>eye := orbitEye s t, up := blendUp s t\<rparr>;
         s1 = s\<lparr>sessionCamera := cam\<rparr>;
         st1 = setCamera cam st
     in do {
       (s2, st2) \<leftarrow> crossfade Front raw s1 st1;
       if raw < 1 then Some (snd (requestAnimationFrame (ResetFrame s2) st2))
       else
         (case getBoundingSphere st2 of
            None \<Rightarrow> Some (raise TypeError st2)
          | Some boundingSphere \<Rightarrow>
              finishRuler Front s2
                (callViewer FitSphereToWindow (callViewer AdjustClippingPlanesToSphere st2)))
     })"

subsection \<open>Auto-rotate\<close>

text \<open>\<^verbatim>\<open>window.startAutoRotate\<close>, lines 1224-1239, up to the registration of its tick.\<close>

definition startAutoRotate :: "real \<Rightarrow> real \<Rightarrow> real \<Rightarrow> state \<Rightarrow> state" where
  "startAutoRotate hS tD now st =
    (if autoRotateId st \<noteq> None then st
     else
       let st1 = st\<lparr>autoRotatePrev := Some now\<rparr>;
           (h, st2) = requestAnimationFrame
                        (AutoRotateTick \<lparr>hSpeed = hS, tiltDeg = tD, elapsed = 0\<rparr>) st1
       in st2\<lparr>autoRotateId := Some h\<rparr>)"

text \<open>
  The \<^verbatim>\<open>tick\<close> callback, lines 1229-1237. In \<^verbatim>\<open>now - autoRotatePrev\<close> a null counts as
  zero.
\<close>

definition tick :: "autoRotate \<Rightarrow> real \<Rightarrow> state \<Rightarrow> state" where
  "tick a now st =
    (let freq = pi / 4;
         dt = (now - (case autoRotatePrev st of None \<Rightarrow> 0 | Some p \<Rightarrow> p)) / 1000;
         st1 = st\<lparr>autoRotatePrev := Some now\<rparr>;
         a1 = a\<lparr>elapsed := elapsed a + dt\<rparr>;
         vDelta = (if tiltDeg a1 > 0 then tiltDeg a1 * freq * cos (freq * elapsed a1) * dt else 0);
         st2 = callViewer NavigationUpdate (callViewer (Orbit (hSpeed a1 * dt) vDelta) st1);
         (h, st3) = requestAnimationFrame (AutoRotateTick a1) st2
     in st3\<lparr>autoRotateId := Some h\<rparr>)"

text \<open>\<^verbatim>\<open>window.stopAutoRotate\<close>, lines 1241-1247.\<close>

definition stopAutoRotate :: "state \<Rightarrow> state" where
  "stopAutoRotate st =
    (case autoRotateId st of
       None \<Rightarrow> st
     | Some h \<Rightarrow> (cancelAnimationFrame h st)\<lparr>autoRotateId := None, autoRotatePrev := None\<rparr>)"

subsection \<open>Frames\<close>

text \<open>
  One animation frame of the browser at time \<open>now\<close>: the callbacks registered before the
  frame run in the order of their registration, each once and only if it is still
  registered when its turn comes; a callback registered during the frame waits for the
  next frame.
\<close>

fun invoke :: "callback \<Rightarrow> real \<Rightarrow> state \<Rightarrow> state option" where
  "invoke (DirectionFrame s) now st = animate s now st"
| "invoke (ResetFrame s) now st = animateReset s now st"
| "invoke (AutoRotateTick a) now st = Some (tick a now st)"

definition runHandle :: "real \<Rightarrow> nat \<Rightarrow> state \<Rightarrow> state option" where
  "runHandle now h st =
    (case map_of (pending st) h of
       None \<Rightarrow> Some st
     | Some cb \<Rightarrow> invoke cb now (cancelAnimationFrame h st))"

fun runHandles :: "real \<Rightarrow> nat list \<Rightarrow> state \<Rightarrow> state option" where
  "runHandles now [] st = Some st"
| "runHandles now (h # hs) st = runHandle now h st \<bind> runHandles now hs"

definition runFrame :: "real \<Rightarrow> state \<Rightarrow> state option" where
  "runFrame now st = runHandles now (map fst (pending st)) st"

subsection \<open>Loading a model\<close>

text \<open>
  \<^verbatim>\<open>FitSphereToWindow(sphere, false)\<close> moves the camera of the viewer at once: the center
  goes to the center of the sphere, and the eye to the distance from it at which the sphere
  fills the window, in the direction that the eye had from the old center. That distance is
  the radius divided by the sine of half the field of view of the canvas, which belongs to
  the viewer; it is the radius times the factor \<open>fit\<close> here.
\<close>

definition fitSphereToWindow :: "real \<Rightarrow> sphere \<Rightarrow> state \<Rightarrow> state" where
  "fitSphereToWindow fit bs st =
    (let cam = viewerCamera st;
         dir = normalize (vsub (eye cam) (center cam));
         cam' = cam\<lparr>center := fst bs, eye := addScaledVector (fst bs) dir (fit * snd bs)\<rparr>
     in callViewer FitSphereToWindow (st\<lparr>viewerCamera := cam'\<rparr>))"

text \<open>
  \<^verbatim>\<open>LoadInputFiles\<close>, lines 71-103, has two parts: at the call the viewer is cleared and
  the object forgotten; when the import finishes the object is stored and
  \<^verbatim>\<open>OnModelFinished\<close>, lines 1250-1267, puts the camera 15 degrees above the front view,
  fits the bounding sphere, enlarged by 1.3, to the window and sets \<^verbatim>\<open>justLoaded\<close>. Reading
  the radius of the sphere, line 1263, raises a \<^verbatim>\<open>TypeError\<close> when the object has no mesh.
  Neither part touches the ruler variables.
\<close>

definition loadInputFiles :: "state \<Rightarrow> state" where
  "loadInputFiles st = (callViewer ViewerClear st)\<lparr>threeObject := None\<rparr>"

definition onModelFinished :: "object3d \<Rightarrow> real \<Rightarrow> state \<Rightarrow> state" where
  "onModelFinished obj fit st =
    (let st1 = callViewer SetUpVector (callViewer SetMainObject (st\<lparr>threeObject := Some obj\<rparr>));
         elevation = 15 * pi / 180;
         camera = (viewerCamera st1)\<lparr>eye := (0, sin elevation * 3.5, cos elevation * 3.5),
                                     center := (0, 0, 0), up := (0, 1, 0)\<rparr>;
         st2 = setCamera camera st1
     in case getBoundingSphere st2 of
          None \<Rightarrow> raise TypeError st2
        | Some (c, radius) \<Rightarrow>
            (fitSphereToWindow fit (c, radius * 1.3)
               (callViewer AdjustClippingPlanesToSphere st2))\<lparr>justLoaded := True\<rparr>)"

subsection \<open>Runs of the bridge\<close>

text \<open>
  What can happen to the bridge: a call of one of its functions by the host, a model load
  (its start, and its end with the object and the fitting factor of the viewer), or an
  animation frame of the browser.
\<close>

datatype event =
    CallSetScaleRuler bool "int option"
  | CallUpdateRulerLabels string string string "real option"
  | CallSetCameraDirection string real
  | CallResetCamera real
  | CallStartAutoRotate real real real
  | CallStopAutoRotate
  | LoadStarts
  | LoadFinishes object3d real
  | Frame real

fun happen :: "event \<Rightarrow> state \<Rightarrow> state option" where
  "happen (CallSetScaleRuler e i) st = setScaleRuler e i st"
| "happen (CallUpdateRulerLabels w h d uf) st = Some (updateRulerLabels w h d uf st)"
| "happen (CallSetCameraDirection tok now) st = Some (setCameraDirection tok now st)"
| "happen (CallResetCamera now) st = Some (resetCamera now st)"
| "happen (CallStartAutoRotate hS tD now) st = Some (startAutoRotate hS tD now st)"
| "happen CallStopAutoRotate st = Some (stopAutoRotate st)"
| "happen LoadStarts st = Some (loadInputFiles st)"
| "happen (LoadFinishes obj fit) st = Some (onModelFinished obj fit st)"
| "happen (Frame now) st = runFrame now st"

fun run :: "event list \<Rightarrow> state \<Rightarrow> state option" where
  "run [] st = Some st"
| "run (e # es) st = happen e st \<bind> run es"

subsection \<open>Example states\<close>

text \<open>
  The bridge before any model is loaded, with a camera five units in front of the origin;
  and an object that is one mesh with a given box.
\<close>

definition frontCamera :: camera where
  "frontCamera = \<lparr>eye = (0, 0, 5), center = (0, 0, 0), up = (0, 1, 0)\<rparr>"

definition idleState :: state where
  "idleState =
    \<lparr>threeObject = None, justLoaded = False, currentIsDark = False,
     viewerCamera = frontCamera, viewerCalls = [],
     sprites = (\<lambda>r. \<lparr>labelText = [], position = (0, 0, 0), scaleY = 1, opacity = 1\<rparr>),
     nextSprite = 0, rulerGroup = None,
     rulerLabelSprites = \<lparr>spriteX = None, spriteY = None, spriteZ = None\<rparr>,
     rulerTickSprites = [], currentViewDirection = Front, currentRulerMeshIndex = None,
     lastRulerLabels = None, pending = [], nextHandle = 0, autoRotateId = None,
     autoRotatePrev = None, uncaught = []\<rparr>"

definition boxObject :: "box3 \<Rightarrow> object3d" where
  "boxObject b = \<lparr>wholeBox = b, meshBoxes = [b]\<rparr>"

subsection \<open>Auxiliary notions for the proofs\<close>

text \<open>Two states that differ at most in the sprite store and the label tables.\<close>

definition overlayOnly :: "state \<Rightarrow> state \<Rightarrow> bool" where
  "overlayOnly st st' =
    (threeObject st' = threeObject st \<and> justLoaded st' = justLoaded st \<and>
     currentIsDark st' = currentIsDark st \<and> viewerCamera st' = viewerCamera st \<and>
     viewerCalls st' = viewerCalls st \<and> rulerGroup st' = rulerGroup st \<and>
     currentViewDirection st' = currentViewDirection st \<and>
     currentRulerMeshIndex st' = currentRulerMeshIndex st \<and>
     lastRulerLabels st' = lastRulerLabels st \<and> pending st' = pending st \<and>
     nextHandle st' = nextHandle st \<and> autoRotateId st' = autoRotateId st \<and>
     autoRotatePrev st' = autoRotatePrev st \<and> uncaught st' = uncaught st)"

text \<open>Two states that differ at most in the sprite store and the tick table.\<close>

definition ticksOnly :: "state \<Rightarrow> state \<Rightarrow> bool" where
  "ticksOnly st st' = (overlayOnly st st' \<and> rulerLabelSprites st' = rulerLabelSprites st)"

text \<open>A group only grows: children are appended and the line material is kept.\<close>

definition grows :: "group \<Rightarrow> group \<Rightarrow> bool" where
  "grows g g' = ((\<exists>cs. children g' = children g @ cs) \<and> lineOpacity g' = lineOpacity g)"

text \<open>The state of \<^verbatim>\<open>setScaleRuler(true, i)\<close> when it starts to build the group.\<close>

definition prepared :: "int option \<Rightarrow> state \<Rightarrow> state" where
  "prepared i st0 =
    (let st = st0\<lparr>currentRulerMeshIndex := i\<rparr>;
         st1 = (if justLoaded st then eyeLevelAfterLoad st else st)
     in if rulerGroup st1 \<noteq> None
        then (callViewer ClearExtra st1)\<lparr>rulerGroup := None, rulerTickSprites := []\<rparr>
        else st1)"

definition relabel :: "state \<Rightarrow> state" where
  "relabel st =
    (case lastRulerLabels st of
       None \<Rightarrow> st
     | Some l \<Rightarrow> updateRulerLabels (labelW l) (labelH l) (labelD l) (unitFactor l) st)"

definition measuredBox :: "object3d \<Rightarrow> int option \<Rightarrow> box3" where
  "measuredBox obj i = (case findMeshByIndex obj i of Some b \<Rightarrow> b | None \<Rightarrow> wholeBox obj)"

text \<open>The fields that no call on the viewer and no label update touches.\<close>

definition sameSchedule :: "state \<Rightarrow> state \<Rightarrow> bool" where
  "sameSchedule st st' =
    (threeObject st' = threeObject st \<and> currentIsDark st' = currentIsDark st \<and>
     lastRulerLabels st' = lastRulerLabels st \<and> pending st' = pending st \<and>
     nextHandle st' = nextHandle st \<and> autoRotateId st' = autoRotateId st \<and>
     autoRotatePrev st' = autoRotatePrev st \<and> uncaught st' = uncaught st)"

text \<open>The frames in which the crossfade rebuilds the overlay.\<close>

definition rebuildsNow :: "real \<Rightarrow> session \<Rightarrow> bool" where
  "rebuildsNow raw s = (hasRuler s \<and> \<not> raw < 0.5 \<and> \<not> rulerRebuilt s)"

text \<open>The camera that a frame of a transition hands to the viewer.\<close>

definition frameCamera :: "session \<Rightarrow> real \<Rightarrow> camera" where
  "frameCamera s now =
    (sessionCamera s)\<lparr>eye := orbitEye s (easeOut (rawProgress s now)),
                      up := blendUp s (easeOut (rawProgress s now))\<rparr>"

text \<open>
  The overlay is drawn at fade factor \<open>f\<close>: every label sprite of the group has opacity \<open>f\<close>,
  and the lines of the group have \<open>f\<close> times the line opacity of the theme.
\<close>

fun childOpacityIs :: "(nat \<Rightarrow> sprite) \<Rightarrow> real \<Rightarrow> child \<Rightarrow> bool" where
  "childOpacityIs h f (Line a b) = True"
| "childOpacityIs h f (SpriteRef r) = (opacity (h r) = f)"

definition overlayOpacity :: "state \<Rightarrow> real \<Rightarrow> bool" where
  "overlayOpacity st f =
    (case rulerGroup st of
       None \<Rightarrow> False
     | Some g \<Rightarrow>
         (list_ex isLine (children g) \<longrightarrow> lineOpacity g = rulerLineOpacity st * f)
         \<and> list_all (childOpacityIs (sprites st) f) (children g))"

text \<open>
  The overlay as \<^verbatim>\<open>setScaleRuler\<close> builds it: a group that holds lines and, among its
  children, the sprites registered as the labels of the three axes.
\<close>

definition isChild :: "group \<Rightarrow> nat option \<Rightarrow> bool" where
  "isChild g sp = (case sp of None \<Rightarrow> False | Some r \<Rightarrow> SpriteRef r \<in> set (children g))"

definition rulerBuilt :: "state \<Rightarrow> bool" where
  "rulerBuilt st =
    (case rulerGroup st of
       None \<Rightarrow> False
     | Some g \<Rightarrow>
         list_ex isLine (children g)
         \<and> isChild g (spriteX (rulerLabelSprites st))
         \<and> isChild g (spriteY (rulerLabelSprites st))
         \<and> isChild g (spriteZ (rulerLabelSprites st)))"

text \<open>How often the overlay has been built and handed to the viewer.\<close>

definition rebuilds :: "state \<Rightarrow> nat" where
  "rebuilds st = count_list (viewerCalls st) AddExtraObject"

text \<open>
  The crossfade of a transition at progress \<open>raw\<close>: the fade factor, and the number of
  rebuilds, that the source's comment prescribes (fade out over the first half, rebuild at
  the midpoint, fade in over the second half).
\<close>

definition fadeFactor :: "real \<Rightarrow> real" where
  "fadeFactor raw = (if raw < 0.5 then 1 - 2 * raw else 2 * (raw - 0.5))"

definition rebuildsDue :: "real \<Rightarrow> nat" where
  "rebuildsDue raw = (if raw < 0.5 then 0 else 1)"

text \<open>
  The state right after a frame at time \<open>t\<close> of a ruler-fading transition \<open>s0\<close> that nothing
  has disturbed, when \<open>n0\<close> rebuilds had happened before the transition began.
\<close>

definition midTransition :: "session \<Rightarrow> nat \<Rightarrow> real \<Rightarrow> state \<Rightarrow> bool" where
  "midTransition s0 n0 t st =
    (threeObject st \<noteq> None \<and> \<not> justLoaded st \<and> rulerBuilt st
     \<and> rebuilds st = n0 + rebuildsDue (rawProgress s0 t)
     \<and> (\<not> rawProgress s0 t < 0.5 \<longrightarrow> currentViewDirection st = direction s0)
     \<and> overlayOpacity st (fadeFactor (rawProgress s0 t))
     \<and> (if rawProgress s0 t < 1
         then \<exists>h c. pending st =
                [(h, DirectionFrame (s0\<lparr>sessionCamera := c,
                                         rulerRebuilt := \<not> rawProgress s0 t < 0.5\<rparr>))]
         else pending st = []))"

text \<open>
  The registrations of the auto-rotate tick among the registered frame callbacks, and the
  invariant that ties them to \<^verbatim>\<open>autoRotateId\<close>: handles are distinct and older than the next
  handle, and the tick is registered exactly when \<^verbatim>\<open>autoRotateId\<close> is set, once, under
  that handle.
\<close>

fun isAutoTick :: "callback \<Rightarrow> bool" where
  "isAutoTick (AutoRotateTick a) = True"
| "isAutoTick (DirectionFrame s) = False"
| "isAutoTick (ResetFrame s) = False"

definition autoTicks :: "state \<Rightarrow> (nat \<times> callback) list" where
  "autoTicks st = filter (\<lambda>p. isAutoTick (snd p)) (pending st)"

definition autoRotateInv :: "state \<Rightarrow> bool" where
  "autoRotateInv st =
    (distinct (map fst (pending st))
     \<and> list_all (\<lambda>p. fst p < nextHandle st) (pending st)
     \<and> (case autoRotateId st of
          None \<Rightarrow> autoTicks st = []
        | Some h \<Rightarrow> \<exists>a. autoTicks st = [(h, AutoRotateTick a)]))"

text \<open>The speed and tilt of the registered auto-rotate tick, if there is one.\<close>

definition autoParams :: "state \<Rightarrow> (real \<times> real) option" where
  "autoParams st =
    (case autoTicks st of
       [(h, AutoRotateTick a)] \<Rightarrow> Some (hSpeed a, tiltDeg a)
     | _ \<Rightarrow> None)"

text \<open>
  A step that leaves the auto-rotate loop alone: it keeps \<^verbatim>\<open>autoRotateId\<close>, and registers
  nothing, or one callback that is not the tick, under the next handle.
\<close>

definition besideAutoRotate :: "state \<Rightarrow> state \<Rightarrow> bool" where
  "besideAutoRotate st st' =
    (autoRotateId st' = autoRotateId st
     \<and> ((pending st' = pending st \<and> nextHandle st' = nextHandle st)
        \<or> (\<exists>cb. \<not> isAutoTick cb \<and> pending st' = pending st @ [(nextHandle st, cb)]
                \<and> nextHandle st' = Suc (nextHandle st))))"

subsection \<open>Properties of the step planner\<close>

text \<open>
  An arithmetic is admissible when each rounded result is within one part in \<open>10^9\<close> of the
  exact one, and its base-ten logarithm within \<open>10^-9\<close> of the exact one. IEEE double
  arithmetic is admissible wherever it neither overflows nor underflows.
\<close>

definition admissible :: "arith \<Rightarrow> bool" where
  "admissible ar =
    ((\<forall>x. \<bar>fl ar x - x\<bar> \<le> \<bar>x\<bar> / 10 ^ 9)
     \<and> (\<forall>x. 0 < x \<longrightarrow> \<bar>log10 ar x - log 10 x\<bar> \<le> 1 / 10 ^ 9)
     \<and> (\<forall>k. \<bar>pow10 ar k - 10 powi k\<bar> \<le> 10 powi k / 10 ^ 9))"

lemma exact_fields [simp]:
  "fl exact x = x" "log10 exact x = log 10 x" "pow10 exact k = 10 powi k"
  by (simp_all add: exact_def)

lemma exact_admissible: "admissible exact"
  by (simp add: admissible_def)

lemma near_bounds:
  fixes a x :: real
  assumes "\<bar>a - x\<bar> \<le> x / 10 ^ 9" "0 < x"
  shows "999 / 1000 * x \<le> a" "a \<le> 1001 / 1000 * x" "0 < a"
proof -
  from assms(1) have "a - x \<le> x / 10 ^ 9" by (rule abs_le_D1)
  then have u: "a \<le> x + x / 1000000000" by simp
  from assms(1) have "- (a - x) \<le> x / 10 ^ 9" by (rule abs_le_D2)
  then have l: "x - x / 1000000000 \<le> a" by simp
  show "999 / 1000 * x \<le> a" using l assms(2) by linarith
  show "a \<le> 1001 / 1000 * x" using u assms(2) by linarith
  show "0 < a" using l assms(2) by linarith
qed

lemma fl_close:
  assumes "admissible ar" "0 < x"
  shows "\<bar>fl ar x - x\<bar> \<le> x / 10 ^ 9"
proof -
  from assms(1) have "\<bar>fl ar x - x\<bar> \<le> \<bar>x\<bar> / 10 ^ 9" by (simp add: admissible_def)
  with assms(2) show ?thesis by (simp only: abs_of_pos)
qed

lemma fl_near:
  assumes "admissible ar" "0 < x"
  shows "999 / 1000 * x \<le> fl ar x" "fl ar x \<le> 1001 / 1000 * x" "0 < fl ar x"
  using near_bounds[OF fl_close[OF assms] assms(2)] by blast+

lemma pow10_close:
  assumes "admissible ar"
  shows "\<bar>pow10 ar k - 10 powi k\<bar> \<le> 10 powi k / 10 ^ 9"
  using assms by (simp add: admissible_def)

lemma pow10_near:
  assumes "admissible ar"
  shows "999 / 1000 * 10 powi k \<le> pow10 ar k" "pow10 ar k \<le> 1001 / 1000 * 10 powi k"
    "0 < pow10 ar k"
proof -
  have p: "(0::real) < 10 powi k" by simp
  from near_bounds[OF pow10_close[OF assms, of k] p]
  show "999 / 1000 * 10 powi k \<le> pow10 ar k" "pow10 ar k \<le> 1001 / 1000 * 10 powi k"
    "0 < pow10 ar k" by blast+
qed

lemma ten_powr_tiny:
  fixes e :: real
  assumes "0 \<le> e" "e \<le> 1 / 10 ^ 9"
  shows "10 powr e \<le> 101 / 100"
proof -
  have l: "ln (10::real) \<le> 9" using ln_le_minus_one[of "10::real"] by simp
  have l0: "0 \<le> ln (10::real)" by simp
  have a: "0 \<le> e * ln 10" using assms(1) l0 by simp
  have "e * ln 10 \<le> (1 / 10 ^ 9) * 9"
    using assms l l0 by (intro mult_mono) simp_all
  then have b: "e * ln 10 \<le> 9 / 10 ^ 9" by simp
  then have b1: "e * ln 10 \<le> 1" by simp
  have "(e * ln 10)\<^sup>2 \<le> (9 / 10 ^ 9)\<^sup>2"
    using a b by (intro power_mono) simp_all
  moreover have "(9 / 10 ^ 9 :: real)\<^sup>2 \<le> 1 / 1000" by (simp add: power2_eq_square)
  ultimately have c: "(e * ln 10)\<^sup>2 \<le> 1 / 1000" by linarith
  have "10 powr e = exp (e * ln 10)" by (simp add: powr_def)
  also have "\<dots> \<le> 1 + e * ln 10 + (e * ln 10)\<^sup>2" by (rule exp_bound[OF a b1])
  also have "\<dots> \<le> 101 / 100" using b c by simp
  finally show ?thesis .
qed

text \<open>The magnitude brackets the rough spacing, up to the error of the logarithm.\<close>

lemma mag_bracket:
  assumes adm: "admissible ar" and pos: "0 < rough"
  defines "k \<equiv> \<lfloor>log10 ar rough\<rfloor>"
  shows "10 powi k \<le> 101 / 100 * rough" "rough \<le> 101 / 10 * 10 powi k"
proof -
  let ?d = "1 / 10 ^ 9 :: real"
  from adm pos have near: "\<bar>log10 ar rough - log 10 rough\<bar> \<le> ?d"
    by (simp add: admissible_def)
  have t: "10 powr ?d \<le> (101 / 100 :: real)" by (rule ten_powr_tiny) simp_all
  have tp: "(0::real) < 10 powr ?d" by simp
  have "real_of_int k \<le> log10 ar rough" by (simp add: k_def)
  with near have "real_of_int k - ?d \<le> log 10 rough" by linarith
  then have "10 powr (real_of_int k - ?d) \<le> rough"
    using pos by (simp add: powr_le_iff)
  then have "10 powi k / 10 powr ?d \<le> rough"
    by (simp add: powr_diff powr_real_of_int')
  then have "10 powi k \<le> rough * 10 powr ?d"
    using tp by (simp add: pos_divide_le_eq)
  also have "\<dots> \<le> rough * (101 / 100)"
    using t pos by (intro mult_left_mono) simp_all
  finally show "10 powi k \<le> 101 / 100 * rough" by simp
  have "log10 ar rough < real_of_int k + 1" unfolding k_def by linarith
  with near have "log 10 rough < real_of_int k + 1 + ?d" by linarith
  then have "rough < 10 powr (real_of_int k + 1 + ?d)"
    using pos by (simp add: less_powr_iff)
  also have "10 powr (real_of_int k + 1 + ?d) = 10 powr real_of_int k * 10 powr 1 * 10 powr ?d"
    by (simp only: powr_add)
  also have "10 powr real_of_int k = (10::real) powi k" by (simp add: powr_real_of_int')
  also have "10 powr 1 = (10::real)" by simp
  finally have "rough < 10 powi k * 10 * 10 powr ?d" .
  also have "\<dots> \<le> 10 powi k * 10 * (101 / 100)"
    using t by (intro mult_left_mono) simp_all
  finally show "rough \<le> 101 / 10 * 10 powi k" by simp
qed

lemma targetDivs_range:
  assumes "admissible ar" "0 < labelWidth"
  shows "\<exists>d. targetDivs ar len labelWidth = Some d \<and> 2 \<le> d \<and> d \<le> 10"
proof -
  have "0 < labelWidth * 1.5" using assms(2) by simp
  from fl_near(3)[OF assms(1) this] have "fl ar (labelWidth * 1.5) \<noteq> 0" by simp
  then show ?thesis by (simp add: targetDivs_def jsDiv_def)
qed

lemma targetDivs_exact:
  assumes "labelWidth \<noteq> 0"
  shows "\<exists>d. targetDivs exact len labelWidth = Some d \<and> 2 \<le> d \<and> d \<le> 10"
  using assms by (simp add: targetDivs_def jsDiv_def)

lemma close_chain:
  fixes s n q :: real
  assumes "\<bar>s - n\<bar> \<le> n / 10 ^ 9" "\<bar>n - q\<bar> \<le> q / 10 ^ 9" "0 < q"
  shows "\<bar>s - q\<bar> \<le> q / 10 ^ 8"
proof -
  from assms(1) have a: "s - n \<le> n / 1000000000" "n - s \<le> n / 1000000000"
    using abs_le_D1[OF assms(1)] abs_le_D2[OF assms(1)] by simp_all
  from assms(2) have b: "n - q \<le> q / 1000000000" "q - n \<le> q / 1000000000"
    using abs_le_D1[OF assms(2)] abs_le_D2[OF assms(2)] by simp_all
  have "s - q \<le> q / 100000000" using a b assms(3) by linarith
  moreover have "- (s - q) \<le> q / 100000000" using a b assms(3) by linarith
  ultimately have "\<bar>s - q\<bar> \<le> q / 100000000" by (rule abs_leI)
  then show ?thesis by simp
qed

text \<open>
  The step that \<^verbatim>\<open>niceStep\<close> returns in an admissible arithmetic: within \<open>10^-8\<close> of
  \<open>nice * 10^k\<close>, and between \<open>1/1.76\<close> and \<open>1/0.69\<close> of the spacing \<open>len / d\<close> asked for.
\<close>

lemma niceStep_rounded:
  fixes len d :: real
  assumes adm: "admissible ar" and len: "0 < len" and d: "0 < d"
  shows "\<exists>step nice k. niceStep ar len d = Some step \<and> 0 < step
    \<and> (nice = 1 \<or> nice = 2 \<or> nice = 5 \<or> nice = 10)
    \<and> \<bar>step - nice * 10 powi k\<bar> \<le> nice * 10 powi k / 10 ^ 8
    \<and> 69 / 100 * step < len / d \<and> len / d < 176 / 100 * step"
proof -
  define r0 where "r0 = len / d"
  define rough where "rough = fl ar r0"
  define k where "k = \<lfloor>log10 ar rough\<rfloor>"
  define P :: real where "P = 10 powi k"
  define mag where "mag = pow10 ar k"
  define x where "x = rough / mag"
  define y where "y = fl ar x"
  define nice :: real
    where "nice = (if y \<le> 1.5 then 1 else if y \<le> 3.5 then 2 else if y \<le> 7.5 then 5 else 10)"
  define step where "step = fl ar (nice * mag)"
  have r0: "0 < r0" using len d by (simp add: r0_def)
  note rg = fl_near[OF adm r0, folded rough_def]
  have P: "0 < P" by (simp add: P_def)
  note mg = pow10_near[OF adm, of k, folded mag_def P_def]
  note br = mag_bracket[OF adm rg(3), folded k_def, folded P_def]
  have x: "0 < x" using rg(3) mg(3) by (simp add: x_def)
  note yb = fl_near[OF adm x, folded y_def]
  have xm: "x * mag = rough" using mg(3) by (simp add: x_def)
  define z where "z = y * mag"
  have "999 / 1000 * x * mag \<le> y * mag"
    using yb(1) mg(3) by (intro mult_right_mono) simp_all
  then have z1: "999 / 1000 * rough \<le> z" by (simp add: z_def xm mult.assoc)
  have "y * mag \<le> 1001 / 1000 * x * mag"
    using yb(2) mg(3) by (intro mult_right_mono) simp_all
  then have z2: "z \<le> 1001 / 1000 * rough" by (simp add: z_def xm mult.assoc)
  have n: "nice = 1 \<or> nice = 2 \<or> nice = 5 \<or> nice = 10" by (simp add: nice_def)
  then have n0: "0 < nice" by auto
  have nm: "0 < nice * mag" using n0 mg(3) by simp
  note sb = fl_near[OF adm nm, folded step_def]
  note sc = fl_close[OF adm nm, folded step_def]
  have ns: "niceStep ar len d = Some step"
    using d rg(3) mg(3)
    by (simp add: niceStep_def Let_def jsDiv_def r0_def[symmetric] rough_def[symmetric]
        k_def[symmetric] mag_def[symmetric] x_def[symmetric] y_def[symmetric] nice_def step_def)
  have "\<bar>nice * mag - nice * P\<bar> = nice * \<bar>mag - P\<bar>"
    using n0 by (simp add: abs_mult right_diff_distrib[symmetric])
  also have "\<dots> \<le> nice * (P / 10 ^ 9)"
    using pow10_close[OF adm, of k, folded mag_def P_def] n0 by (intro mult_left_mono) simp_all
  finally have "\<bar>nice * mag - nice * P\<bar> \<le> nice * P / 10 ^ 9" by simp
  from close_chain[OF sc this] n0 P
  have form: "\<bar>step - nice * P\<bar> \<le> nice * P / 10 ^ 8" by simp
  have lohi: "69 / 100 * step < r0 \<and> r0 < 176 / 100 * step
      \<and> \<bar>step - nice * P\<bar> \<le> nice * P / 10 ^ 8"
  proof -
    consider (a) "y \<le> 1.5" | (b) "1.5 < y" "y \<le> 3.5" | (c) "3.5 < y" "y \<le> 7.5" | (e) "7.5 < y"
      by linarith
    then show ?thesis
    proof cases
      case a
      then have nice: "nice = 1" by (simp add: nice_def)
      have "y * mag \<le> 1.5 * mag" using a mg(3) by (intro mult_right_mono) simp_all
      then have zz: "z \<le> 3 / 2 * mag" by (simp add: z_def)
      from sc have f: "\<bar>step - mag\<bar> \<le> mag / 10 ^ 8" using mg(3) by (simp add: nice)
      from sb have s: "999 / 1000 * mag \<le> step" "step \<le> 1001 / 1000 * mag" by (simp_all add: nice)
      have "69 / 100 * step < r0" using s mg rg br z1 z2 zz P by linarith
      moreover have "r0 < 176 / 100 * step" using s mg rg br z1 z2 zz P by linarith
      moreover note form
      ultimately show ?thesis by blast
    next
      case b
      then have nice: "nice = 2" by (simp add: nice_def)
      have "1.5 * mag < y * mag" using b(1) mg(3) by (intro mult_strict_right_mono) simp_all
      then have zl: "3 / 2 * mag < z" by (simp add: z_def)
      have "y * mag \<le> 3.5 * mag" using b(2) mg(3) by (intro mult_right_mono) simp_all
      then have zz: "z \<le> 7 / 2 * mag" by (simp add: z_def)
      from sb have s: "999 / 1000 * (2 * mag) \<le> step" "step \<le> 1001 / 1000 * (2 * mag)"
        by (simp_all add: nice)
      have "69 / 100 * step < r0" using s mg rg br z1 z2 zz zl P by linarith
      moreover have "r0 < 176 / 100 * step" using s mg rg br z1 z2 zz zl P by linarith
      moreover note form
      ultimately show ?thesis by blast
    next
      case c
      then have nice: "nice = 5" by (simp add: nice_def)
      have "3.5 * mag < y * mag" using c(1) mg(3) by (intro mult_strict_right_mono) simp_all
      then have zl: "7 / 2 * mag < z" by (simp add: z_def)
      have "y * mag \<le> 7.5 * mag" using c(2) mg(3) by (intro mult_right_mono) simp_all
      then have zz: "z \<le> 15 / 2 * mag" by (simp add: z_def)
      from sb have s: "999 / 1000 * (5 * mag) \<le> step" "step \<le> 1001 / 1000 * (5 * mag)"
        by (simp_all add: nice)
      have "69 / 100 * step < r0" using s mg rg br z1 z2 zz zl P by linarith
      moreover have "r0 < 176 / 100 * step" using s mg rg br z1 z2 zz zl P by linarith
      moreover note form
      ultimately show ?thesis by blast
    next
      case e
      then have nice: "nice = 10" by (simp add: nice_def)
      have "7.5 * mag < y * mag" using e mg(3) by (intro mult_strict_right_mono) simp_all
      then have zl: "15 / 2 * mag < z" by (simp add: z_def)
      from sb have s: "999 / 1000 * (10 * mag) \<le> step" "step \<le> 1001 / 1000 * (10 * mag)"
        by (simp_all add: nice)
      have "69 / 100 * step < r0" using s mg rg br z1 z2 zl P by linarith
      moreover have "r0 < 176 / 100 * step" using s mg rg br z1 z2 zl P by linarith
      moreover note form
      ultimately show ?thesis by blast
    qed
  qed
  show ?thesis
    using ns sb(3) n lohi unfolding r0_def P_def by blast
qed

subsection \<open>The step planner in exact arithmetic\<close>

lemma mag_bounds:
  fixes rough :: real
  assumes "0 < rough"
  shows "10 powi \<lfloor>log 10 rough\<rfloor> \<le> rough" "rough < 10 * 10 powi \<lfloor>log 10 rough\<rfloor>"
proof -
  let ?e = "\<lfloor>log 10 rough\<rfloor>"
  have a: "real_of_int ?e \<le> log 10 rough" by simp
  have b: "log 10 rough < real_of_int ?e + 1" by linarith
  have "10 powr (real_of_int ?e) \<le> rough"
    using a assms by (simp add: powr_le_iff)
  then show "10 powi ?e \<le> rough"
    by (simp add: powr_real_of_int')
  have "rough < 10 powr (real_of_int ?e + 1)"
    using b assms by (simp add: less_powr_iff)
  then show "rough < 10 * 10 powi ?e"
    by (simp add: powr_add powr_real_of_int')
qed

lemma niceStep_cases:
  fixes len d :: real
  assumes "0 < len" "0 < d"
  defines "mag \<equiv> 10 powi \<lfloor>log 10 (len / d)\<rfloor>"
  defines "r \<equiv> (len / d) / mag"
  shows "0 < mag" "1 \<le> r" "r < 10" "len = d * r * mag"
    "niceStep exact len d =
       Some ((if r \<le> 1.5 then 1 else if r \<le> 3.5 then 2 else if r \<le> 7.5 then 5 else 10) * mag)"
proof -
  have rough: "0 < len / d" using assms by simp
  show m: "0 < mag" by (simp add: mag_def)
  from mag_bounds[OF rough] have "mag \<le> len / d" "len / d < 10 * mag"
    by (simp_all add: mag_def)
  with m assms show "1 \<le> r" "r < 10"
    by (simp_all add: r_def field_simps)
  show "len = d * r * mag" using m assms by (simp add: r_def)
  have "\<not> len / d \<le> 0" using rough by simp
  then show "niceStep exact len d =
      Some ((if r \<le> 1.5 then 1 else if r \<le> 3.5 then 2 else if r \<le> 7.5 then 5 else 10) * mag)"
    using assms(2) m by (simp add: niceStep_def Let_def jsDiv_def r_def mag_def)
qed

lemma niceStep_divisions:
  fixes len d :: real
  assumes "0 < len" "0 < d"
  shows "\<exists>step. niceStep exact len d = Some step \<and> 0 < step \<and> 7/10 * d < len / step \<and> len / step \<le> 7/4 * d"
proof -
  define mag :: real where "mag = 10 powi \<lfloor>log 10 (len / d)\<rfloor>"
  define r where "r = (len / d) / mag"
  define nice :: real
    where "nice = (if r \<le> 1.5 then 1 else if r \<le> 3.5 then 2 else if r \<le> 7.5 then 5 else 10)"
  have m: "0 < mag" and r1: "1 \<le> r" and r10: "r < 10" and len: "len = d * r * mag"
    and ns: "niceStep exact len d = Some (nice * mag)"
    using niceStep_cases[OF assms] by (simp_all add: mag_def r_def nice_def)
  have n0: "0 < nice" by (simp add: nice_def)
  have pos: "0 < nice * mag" using n0 m by simp
  have q: "len / (nice * mag) = d * (r / nice)"
    using m n0 by (subst len) simp
  have lo: "7/10 < r / nice" and hi: "r / nice \<le> 7/4"
    using r1 r10 by (auto simp: nice_def field_simps split: if_splits)
  have "d * (7/10) < d * (r / nice)"
    using lo assms(2) by (rule mult_strict_left_mono)
  then have "7/10 * d < d * (r / nice)"
    by (simp only: mult.commute)
  then have a: "7/10 * d < len / (nice * mag)"
    by (simp only: q)
  have "d * (r / nice) \<le> d * (7/4)"
    using hi assms(2) by (intro mult_left_mono) simp_all
  then have "d * (r / nice) \<le> 7/4 * d"
    by (simp only: mult.commute)
  then have b: "len / (nice * mag) \<le> 7/4 * d"
    by (simp only: q)
  show ?thesis using ns pos a b by blast
qed

lemma niceStep_positive: "niceStep exact len d = Some step \<Longrightarrow> 0 < step"
  by (auto simp: niceStep_def Let_def jsDiv_def bind_eq_Some_conv split: if_splits)

lemma floor_log10_3: "\<lfloor>log 10 (3::real)\<rfloor> = 0"
  by (simp add: floor_eq_iff)

lemma floor_log10_4: "\<lfloor>log 10 (4::real)\<rfloor> = 0"
  by (simp add: floor_eq_iff)

lemma plannedStep_8_10: "plannedStep exact 8 10 = Some 5"
  by (simp add: plannedStep_def targetDivs_def jsDiv_def niceStep_def Let_def floor_log10_4)

lemma plannedStep_30_1: "plannedStep exact 30 1 = Some 2"
  by (simp add: plannedStep_def targetDivs_def jsDiv_def niceStep_def Let_def floor_log10_3)

text \<open>
  Claim C4, as stated: for every axis length \<open>L > 0\<close> and label footprint \<open>F > 0\<close> the planned
  step is \<open>m * 10^k\<close> with \<open>m\<close> in \<open>{1, 2, 5}\<close>, and the division count \<open>L / step\<close> lies in
  \<open>[2, 10]\<close>. The second half fails: for \<open>L = 8\<close> and \<open>F = 10\<close> the target is two divisions,
  the rough spacing 4 snaps to the step 5, and the axis holds 1.6 divisions.
\<close>

theorem C4_division_count_counterexample:
  "(0::real) < 8 \<and> (0::real) < 10 \<and> plannedStep exact 8 10 = Some 5 \<and> (8::real) / 5 < 2"
  by (simp add: plannedStep_8_10)

text \<open>
  Claim C4, amended. In every admissible arithmetic, for every \<open>L > 0\<close> and \<open>F > 0\<close>: the
  planned step exists; it is, up to the rounding of the arithmetic (one part in \<open>10^8\<close>),
  of the form \<open>m * 10^k\<close> with \<open>m\<close> in \<open>{1, 2, 5}\<close> and an integer \<open>k\<close>; and the division
  count \<open>L / step\<close> is only roughly the target: it lies between 0.69 times and 1.76 times
  \<open>targetDivs\<close>, which lies in \<open>[2, 10]\<close>; so the count lies between 1.38 and 17.6.
\<close>

theorem C4_planned_step:
  fixes L F :: real
  assumes "admissible ar" and "0 < L" and "0 < F"
  shows "\<exists>step d. plannedStep ar L F = Some step \<and> targetDivs ar L F = Some d
           \<and> 2 \<le> d \<and> d \<le> 10
           \<and> (\<exists>(k::int) m::real. (m = 1 \<or> m = 2 \<or> m = 5)
                 \<and> \<bar>step - m * 10 powi k\<bar> \<le> m * 10 powi k / 10 ^ 8)
           \<and> 69 / 100 * d < L / step \<and> L / step < 176 / 100 * d
           \<and> 138 / 100 < L / step \<and> L / step < 176 / 10"
proof -
  from targetDivs_range[OF assms(1,3)] obtain d
    where d: "targetDivs ar L F = Some d" "2 \<le> d" "d \<le> 10" by blast
  then have d0: "0 < d" by linarith
  from niceStep_rounded[OF assms(1,2) d0] obtain step nice k where
    s: "niceStep ar L d = Some step" "0 < step"
      "nice = 1 \<or> nice = 2 \<or> nice = 5 \<or> nice = 10"
      "\<bar>step - nice * 10 powi k\<bar> \<le> nice * 10 powi k / 10 ^ 8"
      "69 / 100 * step < L / d" "L / d < 176 / 100 * step"
    by blast
  have p: "plannedStep ar L F = Some step"
    by (simp add: plannedStep_def d(1) s(1))
  have f: "\<exists>(k::int) m::real. (m = 1 \<or> m = 2 \<or> m = 5)
      \<and> \<bar>step - m * 10 powi k\<bar> \<le> m * 10 powi k / 10 ^ 8"
  proof (cases "nice = 10")
    case True
    have "10 * 10 powi k = 1 * (10::real) powi (k + 1)" by (simp add: power_int_add)
    with s(4) True have "\<bar>step - 1 * 10 powi (k + 1)\<bar> \<le> 1 * 10 powi (k + 1) / 10 ^ 8"
      by simp
    then show ?thesis by blast
  next
    case False
    with s(3,4) show ?thesis by blast
  qed
  have "69 / 100 * step * d < L" using s(5) d0 by (simp add: pos_less_divide_eq)
  then have lo: "69 / 100 * d < L / step"
    using s(2) by (simp add: pos_less_divide_eq mult.commute mult.left_commute)
  have "L < 176 / 100 * step * d" using s(6) d0 by (simp add: pos_divide_less_eq)
  then have hi: "L / step < 176 / 100 * d"
    using s(2) by (simp add: pos_divide_less_eq mult.commute mult.left_commute)
  have "138 / 100 < L / step" "L / step < 176 / 10"
    using lo hi d(2,3) by linarith+
  with p d f lo hi show ?thesis by blast
qed

theorem C4_planned_step_witness:
  "admissible exact \<and> (0::real) < 30 \<and> (0::real) < 1
     \<and> plannedStep exact 30 1 = Some 2 \<and> targetDivs exact 30 1 = Some 10
     \<and> 69 / 100 * (10::real) < 30 / 2 \<and> (30::real) / 2 < 176 / 100 * 10"
  using C4_planned_step[OF exact_admissible, of 30 1]
  by (simp add: plannedStep_30_1 targetDivs_def jsDiv_def exact_admissible)

lemma digitChar_code: "d < 10 \<Longrightarrow> (of_char (digitChar d) :: nat) = 48 + d"
proof -
  assume "d < 10"
  then have "d \<in> {0, 1, 2, 3, 4, 5, 6, 7, 8, 9}" by auto
  then show ?thesis by (auto simp: digitChar_def)
qed

lemma tickBody_returns:
  assumes "wStep w \<noteq> 0"
  shows "\<exists>r. tickBody w d gs = Some r"
  using assms
  by (cases gs) (auto simp: tickBody_def jsDiv_def Let_def split: prod.splits)

lemma tickWalk_returns_aux:
  assumes ts: "0 < wTickStep w" and s: "wStep w \<noteq> 0"
  shows "n = nat (\<lfloor>(wLength w + wStep w * 0.001 - d) / wTickStep w\<rfloor> + 1)
          \<Longrightarrow> \<exists>r. tickWalk w d gs = Some r"
proof (induction n arbitrary: d gs rule: less_induct)
  case (less n)
  let ?L = "wLength w + wStep w * 0.001"
  show ?case
  proof (cases "d \<le> ?L")
    case False
    then show ?thesis by (subst tickWalk.simps) simp
  next
    case True
    obtain r where r: "tickBody w d gs = Some r"
      using tickBody_returns[OF s] by blast
    have nonneg: "0 \<le> (?L - d) / wTickStep w" using True ts by simp
    have eq: "(?L - (d + wTickStep w)) / wTickStep w = (?L - d) / wTickStep w - 1"
      using ts by (simp add: field_simps)
    have "nat (\<lfloor>(?L - (d + wTickStep w)) / wTickStep w\<rfloor> + 1) < n"
      unfolding eq less.prems using nonneg by (simp add: nat_less_iff)
    from less.IH[OF this refl] obtain r' where "tickWalk w (d + wTickStep w) r = Some r'"
      by blast
    then show ?thesis using True r by (subst tickWalk.simps) simp
  qed
qed

lemma tickWalk_returns:
  assumes "0 < wTickStep w" "wStep w \<noteq> 0"
  shows "\<exists>r. tickWalk w d gs = Some r"
  using tickWalk_returns_aux[OF assms refl] .

subsection \<open>What the tick builder leaves alone\<close>

lemma ticksOnly_refl [simp]: "ticksOnly st st"
  by (simp add: ticksOnly_def overlayOnly_def)

lemma ticksOnly_trans: "ticksOnly a b \<Longrightarrow> ticksOnly b c \<Longrightarrow> ticksOnly a c"
  by (simp add: ticksOnly_def overlayOnly_def)

lemma ticksOnly_newSprite: "newSprite s st = (r, st') \<Longrightarrow> ticksOnly st st'"
  by (auto simp: ticksOnly_def overlayOnly_def newSprite_def)

lemma ticksOnly_pushTick [simp]: "ticksOnly st (pushTick r v fs bs st)"
  by (simp add: ticksOnly_def overlayOnly_def pushTick_def)

lemma overlayOnly_refl [simp]: "overlayOnly st st"
  by (simp add: overlayOnly_def)

lemma overlayOnly_trans: "overlayOnly a b \<Longrightarrow> overlayOnly b c \<Longrightarrow> overlayOnly a c"
  by (simp add: overlayOnly_def)

lemma overlayOnly_newSprite: "newSprite s st = (r, st') \<Longrightarrow> overlayOnly st st'"
  by (auto simp: overlayOnly_def newSprite_def)

lemma overlayOnly_pushTick [simp]: "overlayOnly st (pushTick r v fs bs st)"
  by (simp add: overlayOnly_def pushTick_def)

lemma grows_refl [simp]: "grows g g"
  by (simp add: grows_def)

lemma grows_trans: "grows a b \<Longrightarrow> grows b c \<Longrightarrow> grows a c"
  unfolding grows_def by auto

lemma grows_addChild [simp]: "grows g (addChild c g)"
  by (simp add: grows_def addChild_def)

lemma grows_addChild2: "grows g g' \<Longrightarrow> grows g (addChild c g')"
  by (rule grows_trans[OF _ grows_addChild])

lemma tickBody_frame:
  assumes "tickBody w d (g, st) = Some (g', st')"
  shows "grows g g' \<and> ticksOnly st st'"
  using assms
  by (auto simp: tickBody_def jsDiv_def Let_def grows_addChild2 split: if_splits prod.splits
      dest!: ticksOnly_newSprite intro: ticksOnly_trans[OF _ ticksOnly_pushTick])

lemma tickWalk_frame:
  assumes "tickWalk w d gs = Some gs'"
  shows "grows (fst gs) (fst gs') \<and> ticksOnly (snd gs) (snd gs')"
proof (rule tickWalk.raw_induct[where P = "\<lambda>w d gs gs'. grows (fst gs) (fst gs') \<and> ticksOnly (snd gs) (snd gs')", OF _ assms])
  fix walk w d gs gs'
  assume IH: "\<And>w d gs gs'. walk w d gs = Some gs'
                \<Longrightarrow> grows (fst gs) (fst gs') \<and> ticksOnly (snd gs) (snd gs')"
    and eq: "(if d \<le> wLength w + wStep w * (1 / 10 ^ 3)
              then tickBody w d gs \<bind> walk w (d + wTickStep w) else Some gs) = Some gs'"
  show "grows (fst gs) (fst gs') \<and> ticksOnly (snd gs) (snd gs')"
  proof (cases "d \<le> wLength w + wStep w * (1 / 10 ^ 3)")
    case False
    with eq show ?thesis by simp
  next
    case True
    with eq obtain m where m: "tickBody w d gs = Some m" "walk w (d + wTickStep w) m = Some gs'"
      by (auto simp: bind_eq_Some_conv)
    from tickBody_frame[of w d "fst gs" "snd gs" "fst m" "snd m"] m(1)
    have a: "grows (fst gs) (fst m)" "ticksOnly (snd gs) (snd m)" by simp_all
    from IH[OF m(2)] have b: "grows (fst m) (fst gs')" "ticksOnly (snd m) (snd gs')"
      by simp_all
    show ?thesis using a b by (blast intro: grows_trans ticksOnly_trans)
  qed
qed

lemma addGraduatedTicks_degenerate:
  "vlength (vsub endpt start) < 1 / 10 ^ 10
    \<Longrightarrow> addGraduatedTicks g start endpt tickDir labelOffsetDir majorLen minorLen labelOffset
          scale st = Some (g, st)"
  by (simp add: addGraduatedTicks_def Let_def)

lemma addGraduatedTicks_frame:
  assumes "addGraduatedTicks g start endpt tickDir labelOffsetDir majorLen minorLen labelOffset
             scale st = Some (g', st')"
  shows "grows g g' \<and> ticksOnly st st'"
proof (cases "vlength (vsub endpt start) < 1 / 10 ^ 10")
  case True
  with assms show ?thesis by (simp add: addGraduatedTicks_degenerate)
next
  case False
  from assms False show ?thesis
    by (auto simp: addGraduatedTicks_def Let_def newSprite_def bind_eq_Some_conv ticksOnly_def overlayOnly_def
        pushTick_def grows_def addChild_def dest!: tickWalk_frame)
qed

lemma plannedStep_positive: "plannedStep exact len lw = Some step \<Longrightarrow> 0 < step"
  by (auto simp: plannedStep_def bind_eq_Some_conv dest: niceStep_positive)

lemma plannedStep_returns:
  assumes "0 < len" "lw \<noteq> 0"
  shows "\<exists>step. plannedStep exact len lw = Some step"
proof -
  from targetDivs_exact[OF assms(2)] obtain d where d: "targetDivs exact len lw = Some d" "2 \<le> d"
    by blast
  then have "0 < d" by simp
  from niceStep_divisions[OF assms(1) this] d(1) show ?thesis
    by (auto simp: plannedStep_def)
qed

lemma addGraduatedTicks_returns:
  assumes "vlength (vsub endpt start) < 1 / 10 ^ 10 \<or> scale \<noteq> 0"
  shows "\<exists>r. addGraduatedTicks g start endpt tickDir labelOffsetDir majorLen minorLen
               labelOffset scale st = Some r"
proof (cases "vlength (vsub endpt start) < 1 / 10 ^ 10")
  case True
  then show ?thesis by (simp add: addGraduatedTicks_degenerate)
next
  case False
  define len where "len = vlength (vsub endpt start)"
  have "(0::real) < 1 / 10 ^ 10" by simp
  with False have len: "0 < len" unfolding len_def by linarith
  have sc: "scale * 0.35 * 3 \<noteq> 0" using assms False by simp
  from plannedStep_returns[OF len sc] obtain step where
    step: "plannedStep exact len (scale * 0.35 * 3) = Some step" by blast
  then have pos: "0 < step" by (rule plannedStep_positive)
  have "\<exists>r. tickWalk w 0 gs = Some r" if "wStep w = step" "wTickStep w = step \<or> wTickStep w = step / 2"
    for w gs
    using that pos by (intro tickWalk_returns) auto
  then show ?thesis
    using False step
    unfolding addGraduatedTicks_def Let_def len_def[symmetric]
    by (auto simp: newSprite_def bind_eq_Some_conv split_def)
qed

lemma grows_isLine: "grows g g' \<Longrightarrow> list_ex isLine (children g) \<Longrightarrow> list_ex isLine (children g')"
  by (auto simp: grows_def list_ex_iff)

lemma grows_mem: "grows g g' \<Longrightarrow> c \<in> set (children g) \<Longrightarrow> c \<in> set (children g')"
  by (auto simp: grows_def)

lemma xAxisRuler_frame:
  assumes "xAxisRuler d box (g, st) = Some (g', st')"
  shows "grows g g' \<and> overlayOnly st st' \<and> list_ex isLine (children g')
    \<and> (\<exists>r. spriteX (rulerLabelSprites st') = Some r \<and> SpriteRef r \<in> set (children g'))"
  using assms
  apply (clarsimp simp: xAxisRuler_def Let_def bind_eq_Some_conv newSprite_def split: prod.splits)
  apply (drule addGraduatedTicks_frame)
  apply (auto simp: ticksOnly_def overlayOnly_def grows_def addChild_def)
  done

lemma yAxisRuler_frame:
  assumes "yAxisRuler d box (g, st) = Some (g', st')"
  shows "grows g g' \<and> overlayOnly st st' \<and> list_ex isLine (children g')
    \<and> (\<exists>r. spriteY (rulerLabelSprites st') = Some r \<and> SpriteRef r \<in> set (children g'))
    \<and> spriteX (rulerLabelSprites st') = spriteX (rulerLabelSprites st)"
  using assms
  apply (clarsimp simp: yAxisRuler_def Let_def bind_eq_Some_conv newSprite_def split: prod.splits)
  apply (drule addGraduatedTicks_frame)
  apply (auto simp: ticksOnly_def overlayOnly_def grows_def addChild_def)
  done

lemma zAxisRuler_frame:
  assumes "zAxisRuler d box (g, st) = Some (g', st')"
  shows "grows g g' \<and> overlayOnly st st' \<and> list_ex isLine (children g')
    \<and> (\<exists>r. spriteZ (rulerLabelSprites st') = Some r \<and> SpriteRef r \<in> set (children g'))
    \<and> spriteX (rulerLabelSprites st') = spriteX (rulerLabelSprites st)
    \<and> spriteY (rulerLabelSprites st') = spriteY (rulerLabelSprites st)"
  using assms
  apply (clarsimp simp: zAxisRuler_def Let_def bind_eq_Some_conv newSprite_def split: prod.splits)
  apply (drule addGraduatedTicks_frame)
  apply (auto simp: ticksOnly_def overlayOnly_def grows_def addChild_def)
  done

lemma box_ordered: "ordered3 (bmin b) (bmax b)"
  by transfer auto

lemma bmin_spanBox [simp]: "bmin (spanBox p q) = vmin p q"
  by transfer simp

lemma bmax_spanBox [simp]: "bmax (spanBox p q) = vmax p q"
  by transfer simp

lemma getSize_nonneg: "getSize b = (sx, sy, sz) \<Longrightarrow> 0 \<le> sx \<and> 0 \<le> sy \<and> 0 \<le> sz"
  using box_ordered[of b] by (cases "bmin b"; cases "bmax b") (auto simp: getSize_def)

lemma axis_scale:
  assumes "0 \<le> sx" "0 \<le> sy" "0 \<le> sz" "a = sx \<or> a = sy \<or> a = sz"
  shows "sqrt (a * a) < 1 / 10 ^ 10 \<or> spriteScale (sx, sy, sz) \<noteq> 0"
proof (cases "a = 0")
  case True
  then show ?thesis by simp
next
  case False
  with assms have "0 < max sx (max sy sz)" by auto
  then show ?thesis by (simp add: spriteScale_def)
qed

lemma xAxisRuler_returns: "\<exists>r. xAxisRuler d box (g, st) = Some r"
proof -
  obtain mx my mz where m: "bmin box = (mx, my, mz)" by (cases "bmin box") auto
  obtain sx sy sz where s: "getSize box = (sx, sy, sz)" by (cases "getSize box") auto
  from getSize_nonneg[OF s] have n: "0 \<le> sx" "0 \<le> sy" "0 \<le> sz" by auto
  from axis_scale[OF n, of sx]
  have sc: "sqrt (sx * sx) < 1 / 10 ^ 10 \<or> spriteScale (sx, sy, sz) \<noteq> 0" by simp
  have "\<exists>r. addGraduatedTicks g0 p q tickDir labelDir a b c (spriteScale (sx, sy, sz)) st = Some r"
    if "vlength (vsub q p) = sqrt (sx * sx)" for g0 p q tickDir labelDir a b c
    using addGraduatedTicks_returns[of q p "spriteScale (sx, sy, sz)"] sc that by simp
  then show ?thesis
    unfolding xAxisRuler_def Let_def m s
    by (auto simp: bind_eq_Some_conv newSprite_def split_def)
qed

lemma yAxisRuler_returns: "\<exists>r. yAxisRuler d box (g, st) = Some r"
proof -
  obtain mx my mz where m: "bmin box = (mx, my, mz)" by (cases "bmin box") auto
  obtain sx sy sz where s: "getSize box = (sx, sy, sz)" by (cases "getSize box") auto
  from getSize_nonneg[OF s] have n: "0 \<le> sx" "0 \<le> sy" "0 \<le> sz" by auto
  from axis_scale[OF n, of sy]
  have sc: "sqrt (sy * sy) < 1 / 10 ^ 10 \<or> spriteScale (sx, sy, sz) \<noteq> 0" by simp
  have "\<exists>r. addGraduatedTicks g0 p q tickDir labelDir a b c (spriteScale (sx, sy, sz)) st = Some r"
    if "vlength (vsub q p) = sqrt (sy * sy)" for g0 p q tickDir labelDir a b c
    using addGraduatedTicks_returns[of q p "spriteScale (sx, sy, sz)"] sc that by simp
  then show ?thesis
    unfolding yAxisRuler_def Let_def m s
    by (auto simp: bind_eq_Some_conv newSprite_def split_def)
qed

lemma zAxisRuler_returns: "\<exists>r. zAxisRuler d box (g, st) = Some r"
proof -
  obtain mx my mz where m: "bmin box = (mx, my, mz)" by (cases "bmin box") auto
  obtain sx sy sz where s: "getSize box = (sx, sy, sz)" by (cases "getSize box") auto
  from getSize_nonneg[OF s] have n: "0 \<le> sx" "0 \<le> sy" "0 \<le> sz" by auto
  from axis_scale[OF n, of sz]
  have sc: "sqrt (sz * sz) < 1 / 10 ^ 10 \<or> spriteScale (sx, sy, sz) \<noteq> 0" by simp
  have "\<exists>r. addGraduatedTicks g0 p q tickDir labelDir a b c (spriteScale (sx, sy, sz)) st = Some r"
    if "vlength (vsub q p) = sqrt (sz * sz)" for g0 p q tickDir labelDir a b c
    using addGraduatedTicks_returns[of q p "spriteScale (sx, sy, sz)"] sc that by simp
  then show ?thesis
    unfolding zAxisRuler_def Let_def m s
    by (auto simp: bind_eq_Some_conv newSprite_def split_def)
qed

text \<open>The three axis rulers in a row, as \<^verbatim>\<open>setScaleRuler\<close> builds them.\<close>

lemma axes_return:
  "\<exists>g' st'. (xAxisRuler d box (g, st) \<bind> yAxisRuler d box \<bind> zAxisRuler d box) = Some (g', st')"
proof -
  obtain g1 s1 where a: "xAxisRuler d box (g, st) = Some (g1, s1)"
    using xAxisRuler_returns[of d box g st] by auto
  obtain g2 s2 where b: "yAxisRuler d box (g1, s1) = Some (g2, s2)"
    using yAxisRuler_returns[of d box g1 s1] by auto
  obtain g3 s3 where c: "zAxisRuler d box (g2, s2) = Some (g3, s3)"
    using zAxisRuler_returns[of d box g2 s2] by auto
  show ?thesis by (simp add: a b c)
qed

lemma axes_frame:
  assumes "(xAxisRuler d box (g, st) \<bind> yAxisRuler d box \<bind> zAxisRuler d box) = Some (g', st')"
  shows "grows g g' \<and> overlayOnly st st' \<and> list_ex isLine (children g')
    \<and> (\<exists>r. spriteX (rulerLabelSprites st') = Some r \<and> SpriteRef r \<in> set (children g'))
    \<and> (\<exists>r. spriteY (rulerLabelSprites st') = Some r \<and> SpriteRef r \<in> set (children g'))
    \<and> (\<exists>r. spriteZ (rulerLabelSprites st') = Some r \<and> SpriteRef r \<in> set (children g'))"
proof -
  from assms obtain g1 s1 g2 s2 where
    a: "xAxisRuler d box (g, st) = Some (g1, s1)" and
    b: "yAxisRuler d box (g1, s1) = Some (g2, s2)" and
    c: "zAxisRuler d box (g2, s2) = Some (g', st')"
    by (auto simp: bind_eq_Some_conv)
  note fa = xAxisRuler_frame[OF a] and fb = yAxisRuler_frame[OF b] and fc = zAxisRuler_frame[OF c]
  have "grows g g'" using fa fb fc by (blast intro: grows_trans)
  moreover have "overlayOnly st st'" using fa fb fc by (blast intro: overlayOnly_trans)
  moreover have "\<exists>r. spriteX (rulerLabelSprites st') = Some r \<and> SpriteRef r \<in> set (children g')"
    using fa fb fc by (metis grows_mem)
  moreover have "\<exists>r. spriteY (rulerLabelSprites st') = Some r \<and> SpriteRef r \<in> set (children g')"
    using fb fc by (metis grows_mem)
  ultimately show ?thesis using fc by blast
qed

subsection \<open>What a ruler build changes\<close>

lemma setScaleRuler_unfold:
  assumes "threeObject st = Some obj"
  shows "setScaleRuler True i st =
    do {
      gx \<leftarrow> xAxisRuler (currentViewDirection (prepared i st)) (measuredBox obj i)
              (\<lparr>children = [], lineOpacity = rulerLineOpacity (prepared i st)\<rparr>, prepared i st);
      gy \<leftarrow> yAxisRuler (currentViewDirection (prepared i st)) (measuredBox obj i) gx;
      (g, st3) \<leftarrow> zAxisRuler (currentViewDirection (prepared i st)) (measuredBox obj i) gy;
      Some (relabel (callViewer AddExtraObject (st3\<lparr>rulerGroup := Some g\<rparr>)))
    }"
  using assms
  by (simp add: setScaleRuler_def Let_def prepared_def relabel_def measuredBox_def)

lemma setScaleRuler_enabled:
  assumes "threeObject st = Some obj"
  shows "\<exists>g st3.
      (xAxisRuler (currentViewDirection (prepared i st)) (measuredBox obj i)
          (\<lparr>children = [], lineOpacity = rulerLineOpacity (prepared i st)\<rparr>, prepared i st)
        \<bind> yAxisRuler (currentViewDirection (prepared i st)) (measuredBox obj i)
        \<bind> zAxisRuler (currentViewDirection (prepared i st)) (measuredBox obj i)) = Some (g, st3)
      \<and> setScaleRuler True i st
          = Some (relabel (callViewer AddExtraObject (st3\<lparr>rulerGroup := Some g\<rparr>)))"
proof -
  let ?d = "currentViewDirection (prepared i st)" and ?b = "measuredBox obj i"
  obtain g1 s1 where a: "xAxisRuler ?d ?b
      (\<lparr>children = [], lineOpacity = rulerLineOpacity (prepared i st)\<rparr>, prepared i st) = Some (g1, s1)"
    using xAxisRuler_returns by (metis surj_pair)
  obtain g2 s2 where b: "yAxisRuler ?d ?b (g1, s1) = Some (g2, s2)"
    using yAxisRuler_returns by (metis surj_pair)
  obtain g3 s3 where c: "zAxisRuler ?d ?b (g2, s2) = Some (g3, s3)"
    using zAxisRuler_returns by (metis surj_pair)
  show ?thesis
    by (simp add: setScaleRuler_unfold[OF assms] a b c)
qed

lemma setScaleRuler_noTarget: "threeObject st = None \<Longrightarrow> setScaleRuler e i st = Some st"
  by (simp add: setScaleRuler_def)

lemma setScaleRuler_returns: "\<exists>st'. setScaleRuler e i st = Some st'"
proof (cases "threeObject st")
  case None
  then show ?thesis by (simp add: setScaleRuler_noTarget)
next
  case (Some obj)
  show ?thesis
  proof (cases e)
    case True
    with setScaleRuler_enabled[OF Some, of i] show ?thesis by auto
  next
    case False
    with Some show ?thesis by (simp add: setScaleRuler_def Let_def)
  qed
qed

lemma sameSchedule_refl [simp]: "sameSchedule st st"
  by (simp add: sameSchedule_def)

lemma sameSchedule_trans: "sameSchedule a b \<Longrightarrow> sameSchedule b c \<Longrightarrow> sameSchedule a c"
  by (simp add: sameSchedule_def)

lemma overlayOnly_sameSchedule: "overlayOnly st st' \<Longrightarrow> sameSchedule st st'"
  by (simp add: overlayOnly_def sameSchedule_def)

lemma foldl_field:
  assumes "\<And>s e. sel (f s e) = sel s"
  shows "sel (foldl f s es) = sel s"
  by (induction es arbitrary: s) (simp_all add: assms)

lemma updateSpriteText_fields:
  "threeObject (updateSpriteText sp t st) = threeObject st"
  "justLoaded (updateSpriteText sp t st) = justLoaded st"
  "currentIsDark (updateSpriteText sp t st) = currentIsDark st"
  "viewerCamera (updateSpriteText sp t st) = viewerCamera st"
  "viewerCalls (updateSpriteText sp t st) = viewerCalls st"
  "nextSprite (updateSpriteText sp t st) = nextSprite st"
  "rulerGroup (updateSpriteText sp t st) = rulerGroup st"
  "rulerLabelSprites (updateSpriteText sp t st) = rulerLabelSprites st"
  "rulerTickSprites (updateSpriteText sp t st) = rulerTickSprites st"
  "currentViewDirection (updateSpriteText sp t st) = currentViewDirection st"
  "currentRulerMeshIndex (updateSpriteText sp t st) = currentRulerMeshIndex st"
  "lastRulerLabels (updateSpriteText sp t st) = lastRulerLabels st"
  "pending (updateSpriteText sp t st) = pending st"
  "nextHandle (updateSpriteText sp t st) = nextHandle st"
  "autoRotateId (updateSpriteText sp t st) = autoRotateId st"
  "autoRotatePrev (updateSpriteText sp t st) = autoRotatePrev st"
  "uncaught (updateSpriteText sp t st) = uncaught st"
  by (simp_all add: updateSpriteText_def split: option.splits)

lemma updateTicks_fields:
  fixes lbl :: "tickEntry \<Rightarrow> string"
  defines "F \<equiv> \<lambda>st es. foldl (\<lambda>s e. updateTickSpriteText (tickSprite e) (lbl e) (baseScale e) s) st es"
  shows
  "threeObject (F st es) = threeObject st"
  "justLoaded (F st es) = justLoaded st"
  "currentIsDark (F st es) = currentIsDark st"
  "viewerCamera (F st es) = viewerCamera st"
  "viewerCalls (F st es) = viewerCalls st"
  "nextSprite (F st es) = nextSprite st"
  "rulerGroup (F st es) = rulerGroup st"
  "rulerLabelSprites (F st es) = rulerLabelSprites st"
  "rulerTickSprites (F st es) = rulerTickSprites st"
  "currentViewDirection (F st es) = currentViewDirection st"
  "currentRulerMeshIndex (F st es) = currentRulerMeshIndex st"
  "lastRulerLabels (F st es) = lastRulerLabels st"
  "pending (F st es) = pending st"
  "nextHandle (F st es) = nextHandle st"
  "autoRotateId (F st es) = autoRotateId st"
  "autoRotatePrev (F st es) = autoRotatePrev st"
  "uncaught (F st es) = uncaught st"
  unfolding F_def by (rule foldl_field, simp add: updateTickSpriteText_def)+

lemma updateRulerLabels_fields:
  "threeObject (updateRulerLabels w h d uf st) = threeObject st"
  "justLoaded (updateRulerLabels w h d uf st) = justLoaded st"
  "currentIsDark (updateRulerLabels w h d uf st) = currentIsDark st"
  "viewerCamera (updateRulerLabels w h d uf st) = viewerCamera st"
  "viewerCalls (updateRulerLabels w h d uf st) = viewerCalls st @ [Render]"
  "nextSprite (updateRulerLabels w h d uf st) = nextSprite st"
  "rulerGroup (updateRulerLabels w h d uf st) = rulerGroup st"
  "rulerLabelSprites (updateRulerLabels w h d uf st) = rulerLabelSprites st"
  "rulerTickSprites (updateRulerLabels w h d uf st) = rulerTickSprites st"
  "currentViewDirection (updateRulerLabels w h d uf st) = currentViewDirection st"
  "currentRulerMeshIndex (updateRulerLabels w h d uf st) = currentRulerMeshIndex st"
  "lastRulerLabels (updateRulerLabels w h d uf st)
     = Some \<lparr>labelW = w, labelH = h, labelD = d, unitFactor = uf\<rparr>"
  "pending (updateRulerLabels w h d uf st) = pending st"
  "nextHandle (updateRulerLabels w h d uf st) = nextHandle st"
  "autoRotateId (updateRulerLabels w h d uf st) = autoRotateId st"
  "autoRotatePrev (updateRulerLabels w h d uf st) = autoRotatePrev st"
  "uncaught (updateRulerLabels w h d uf st) = uncaught st"
  by (simp_all add: updateRulerLabels_def Let_def callViewer_def updateSpriteText_fields
      updateTicks_fields split: option.splits)

lemma relabel_fields:
  "threeObject (relabel st) = threeObject st"
  "justLoaded (relabel st) = justLoaded st"
  "currentIsDark (relabel st) = currentIsDark st"
  "viewerCamera (relabel st) = viewerCamera st"
  "viewerCalls (relabel st) = viewerCalls st @ (if lastRulerLabels st = None then [] else [Render])"
  "nextSprite (relabel st) = nextSprite st"
  "rulerGroup (relabel st) = rulerGroup st"
  "rulerLabelSprites (relabel st) = rulerLabelSprites st"
  "rulerTickSprites (relabel st) = rulerTickSprites st"
  "currentViewDirection (relabel st) = currentViewDirection st"
  "currentRulerMeshIndex (relabel st) = currentRulerMeshIndex st"
  "lastRulerLabels (relabel st) = lastRulerLabels st"
  "pending (relabel st) = pending st"
  "nextHandle (relabel st) = nextHandle st"
  "autoRotateId (relabel st) = autoRotateId st"
  "autoRotatePrev (relabel st) = autoRotatePrev st"
  "uncaught (relabel st) = uncaught st"
  by (simp_all add: relabel_def updateRulerLabels_fields split: option.splits)

lemma prepared_fields:
  "threeObject (prepared i st) = threeObject st"
  "currentIsDark (prepared i st) = currentIsDark st"
  "lastRulerLabels (prepared i st) = lastRulerLabels st"
  "pending (prepared i st) = pending st"
  "nextHandle (prepared i st) = nextHandle st"
  "autoRotateId (prepared i st) = autoRotateId st"
  "autoRotatePrev (prepared i st) = autoRotatePrev st"
  "currentRulerMeshIndex (prepared i st) = i"
  "justLoaded (prepared i st) = False"
  "rulerGroup (prepared i st) = None"
  "viewerCamera (prepared i st)
     = (if justLoaded st
        then (viewerCamera st)\<lparr>eye := vadd (center (viewerCamera st))
                (0, 0, vlength (vsub (eye (viewerCamera st)) (center (viewerCamera st)))),
              up := (0, 1, 0)\<rparr>
        else viewerCamera st)"
  "currentViewDirection (prepared i st) = (if justLoaded st then Front else currentViewDirection st)"
  "count_list (viewerCalls (prepared i st)) AddExtraObject = count_list (viewerCalls st) AddExtraObject"
  "uncaught (prepared i st) = uncaught st"
  by (auto simp: prepared_def Let_def eyeLevelAfterLoad_def setCamera_def callViewer_def)

lemma setScaleRuler_rebuild:
  assumes obj: "threeObject st = Some obj" and run: "setScaleRuler True i st = Some st'"
  shows "sameSchedule st st'"
    and "\<exists>g. rulerGroup st' = Some g \<and> list_ex isLine (children g)
          \<and> (\<exists>r. spriteX (rulerLabelSprites st') = Some r \<and> SpriteRef r \<in> set (children g))
          \<and> (\<exists>r. spriteY (rulerLabelSprites st') = Some r \<and> SpriteRef r \<in> set (children g))
          \<and> (\<exists>r. spriteZ (rulerLabelSprites st') = Some r \<and> SpriteRef r \<in> set (children g))"
    and "count_list (viewerCalls st') AddExtraObject = count_list (viewerCalls st) AddExtraObject + 1"
    and "justLoaded st' = False" and "currentRulerMeshIndex st' = i"
    and "viewerCamera st' = viewerCamera (prepared i st)"
    and "currentViewDirection st' = currentViewDirection (prepared i st)"
proof -
  from setScaleRuler_enabled[OF obj, of i] run obtain g st3 where
    ax: "(xAxisRuler (currentViewDirection (prepared i st)) (measuredBox obj i)
          (\<lparr>children = [], lineOpacity = rulerLineOpacity (prepared i st)\<rparr>, prepared i st)
        \<bind> yAxisRuler (currentViewDirection (prepared i st)) (measuredBox obj i)
        \<bind> zAxisRuler (currentViewDirection (prepared i st)) (measuredBox obj i)) = Some (g, st3)"
    and st': "st' = relabel (callViewer AddExtraObject (st3\<lparr>rulerGroup := Some g\<rparr>))"
    by auto
  note f = axes_frame[OF ax]
  from f have oo: "overlayOnly (prepared i st) st3" by blast
  show "sameSchedule st st'"
    using oo by (simp add: st' sameSchedule_def relabel_fields callViewer_def overlayOnly_def
        prepared_fields)
  show "\<exists>g. rulerGroup st' = Some g \<and> list_ex isLine (children g)
          \<and> (\<exists>r. spriteX (rulerLabelSprites st') = Some r \<and> SpriteRef r \<in> set (children g))
          \<and> (\<exists>r. spriteY (rulerLabelSprites st') = Some r \<and> SpriteRef r \<in> set (children g))
          \<and> (\<exists>r. spriteZ (rulerLabelSprites st') = Some r \<and> SpriteRef r \<in> set (children g))"
    using f by (simp add: st' relabel_fields callViewer_def)
  show "count_list (viewerCalls st') AddExtraObject = count_list (viewerCalls st) AddExtraObject + 1"
    using oo by (simp add: st' relabel_fields callViewer_def overlayOnly_def prepared_fields)
  show "justLoaded st' = False" "currentRulerMeshIndex st' = i"
    "viewerCamera st' = viewerCamera (prepared i st)"
    "currentViewDirection st' = currentViewDirection (prepared i st)"
    using oo by (simp_all add: st' relabel_fields callViewer_def overlayOnly_def prepared_fields)
qed

lemma setScaleRuler_sameSchedule:
  assumes "setScaleRuler e i st = Some st'"
  shows "sameSchedule st st'"
proof (cases "threeObject st")
  case None
  with assms show ?thesis by (simp add: setScaleRuler_noTarget)
next
  case (Some obj)
  show ?thesis
  proof (cases e)
    case True
    with assms Some show ?thesis using setScaleRuler_rebuild(1)[of st obj i st'] by simp
  next
    case False
    with assms Some show ?thesis
      by (auto simp: setScaleRuler_def Let_def sameSchedule_def callViewer_def split: if_splits)
  qed
qed

lemma setRulerGroupOpacity_fields:
  "threeObject (setRulerGroupOpacity f st) = threeObject st"
  "justLoaded (setRulerGroupOpacity f st) = justLoaded st"
  "currentIsDark (setRulerGroupOpacity f st) = currentIsDark st"
  "viewerCamera (setRulerGroupOpacity f st) = viewerCamera st"
  "viewerCalls (setRulerGroupOpacity f st) = viewerCalls st"
  "nextSprite (setRulerGroupOpacity f st) = nextSprite st"
  "rulerLabelSprites (setRulerGroupOpacity f st) = rulerLabelSprites st"
  "rulerTickSprites (setRulerGroupOpacity f st) = rulerTickSprites st"
  "currentViewDirection (setRulerGroupOpacity f st) = currentViewDirection st"
  "currentRulerMeshIndex (setRulerGroupOpacity f st) = currentRulerMeshIndex st"
  "lastRulerLabels (setRulerGroupOpacity f st) = lastRulerLabels st"
  "pending (setRulerGroupOpacity f st) = pending st"
  "nextHandle (setRulerGroupOpacity f st) = nextHandle st"
  "autoRotateId (setRulerGroupOpacity f st) = autoRotateId st"
  "autoRotatePrev (setRulerGroupOpacity f st) = autoRotatePrev st"
  "(rulerGroup (setRulerGroupOpacity f st) = None) = (rulerGroup st = None)"
  "uncaught (setRulerGroupOpacity f st) = uncaught st"
  by (simp_all add: setRulerGroupOpacity_def split: option.splits)

subsection \<open>What a frame of a transition changes\<close>

lemma crossfade_returns: "\<exists>r. crossfade d raw s st = Some r"
proof -
  obtain st' where "setScaleRuler True (currentRulerMeshIndex st) (st\<lparr>currentViewDirection := d\<rparr>) = Some st'"
    using setScaleRuler_returns by blast
  then show ?thesis by (simp add: crossfade_def)
qed

lemma crossfade_session:
  assumes "crossfade d raw s st = Some (s', st')"
  shows "s' = s\<lparr>rulerRebuilt := (rulerRebuilt s \<or> (hasRuler s \<and> \<not> raw < 0.5))\<rparr>"
  using assms by (auto simp: crossfade_def bind_eq_Some_conv split: if_splits)

lemma crossfade_quiet:
  assumes "crossfade d raw s st = Some (s', st')" "\<not> rebuildsNow raw s \<or> threeObject st = None"
  shows "threeObject st' = threeObject st" "justLoaded st' = justLoaded st"
    "currentIsDark st' = currentIsDark st" "viewerCamera st' = viewerCamera st"
    "viewerCalls st' = viewerCalls st"
    "currentViewDirection st' = (if rebuildsNow raw s then d else currentViewDirection st)"
    "lastRulerLabels st' = lastRulerLabels st" "pending st' = pending st"
    "nextHandle st' = nextHandle st" "autoRotateId st' = autoRotateId st"
    "autoRotatePrev st' = autoRotatePrev st"
    "(rulerGroup st' = None) = (rulerGroup st = None)"
  using assms
  by (auto simp: crossfade_def rebuildsNow_def bind_eq_Some_conv setScaleRuler_noTarget
      setRulerGroupOpacity_fields split: if_splits)

lemma crossfade_sameSchedule:
  assumes "crossfade d raw s st = Some (s', st')"
  shows "sameSchedule st st'"
proof -
  have a: "sameSchedule x (setRulerGroupOpacity f x)" for f x
    by (simp add: sameSchedule_def setRulerGroupOpacity_fields)
  have b: "sameSchedule st y" if "setScaleRuler True i (st\<lparr>currentViewDirection := d\<rparr>) = Some y" for i y
    using setScaleRuler_sameSchedule[OF that] by (simp add: sameSchedule_def)
  from assms show ?thesis
    by (auto simp: crossfade_def bind_eq_Some_conv split: if_splits
        intro: a sameSchedule_trans[OF a a] sameSchedule_trans[OF sameSchedule_trans[OF b a] a])
qed

lemma finishRuler_returns: "\<exists>r. finishRuler d s st = Some r"
proof -
  obtain st' where "setScaleRuler True (currentRulerMeshIndex (st\<lparr>currentViewDirection := d\<rparr>))
      (st\<lparr>currentViewDirection := d\<rparr>) = Some st'"
    using setScaleRuler_returns by blast
  then show ?thesis by (auto simp: finishRuler_def Let_def)
qed

lemma finishRuler_rebuilt:
  assumes "finishRuler d s st = Some st'" "rulerRebuilt s \<or> \<not> hasRuler s \<or> threeObject st = None"
  shows "threeObject st' = threeObject st" "justLoaded st' = justLoaded st"
    "currentIsDark st' = currentIsDark st" "viewerCamera st' = viewerCamera st"
    "viewerCalls st' = viewerCalls st"
    "currentViewDirection st' = (if rulerRebuilt s then currentViewDirection st else d)"
    "lastRulerLabels st' = lastRulerLabels st" "pending st' = pending st"
    "nextHandle st' = nextHandle st" "autoRotateId st' = autoRotateId st"
    "autoRotatePrev st' = autoRotatePrev st"
    "(rulerGroup st' = None) = (rulerGroup st = None)"
  using assms
  by (auto simp: finishRuler_def Let_def bind_eq_Some_conv setScaleRuler_noTarget
      setRulerGroupOpacity_fields split: if_splits)

lemma finishRuler_sameSchedule:
  assumes "finishRuler d s st = Some st'"
  shows "sameSchedule st st'"
proof -
  have a: "sameSchedule x (setRulerGroupOpacity f x)" for f x
    by (simp add: sameSchedule_def setRulerGroupOpacity_fields)
  have b: "sameSchedule st y" if "setScaleRuler True i (st\<lparr>currentViewDirection := d\<rparr>) = Some y" for i y
    using setScaleRuler_sameSchedule[OF that] by (simp add: sameSchedule_def)
  have c: "sameSchedule st y" if "setScaleRuler True i st = Some y" for i y
    using setScaleRuler_sameSchedule[OF that] .
  have d: "sameSchedule st (st\<lparr>currentViewDirection := d\<rparr>)"
    by (simp add: sameSchedule_def)
  from assms show ?thesis
    by (auto simp: finishRuler_def Let_def bind_eq_Some_conv split: if_splits
        intro: a d sameSchedule_trans[OF b a] sameSchedule_trans[OF c a] sameSchedule_trans[OF d a])
qed

lemma animate_returns: "\<exists>st'. animate s now st = Some st'"
proof -
  define raw where "raw = rawProgress s now"
  define cam where "cam = (sessionCamera s)\<lparr>eye := orbitEye s (easeOut raw), up := blendUp s (easeOut raw)\<rparr>"
  obtain s2 st2 where c: "crossfade (direction s) raw (s\<lparr>sessionCamera := cam\<rparr>) (setCamera cam st) = Some (s2, st2)"
    using crossfade_returns by (metis surj_pair)
  obtain st3 where f: "finishRuler (direction s2) s2 (callViewer AdjustClippingPlanesToSphere st2) = Some st3"
    using finishRuler_returns by blast
  show ?thesis
    using c f by (simp add: animate_def Let_def raw_def[symmetric] cam_def[symmetric])
qed

lemma animateReset_returns: "\<exists>st'. animateReset s now st = Some st'"
proof -
  define raw where "raw = rawProgress s now"
  define cam where "cam = (sessionCamera s)\<lparr>eye := orbitEye s (easeOut raw), up := blendUp s (easeOut raw)\<rparr>"
  obtain s2 st2 where c: "crossfade Front raw (s\<lparr>sessionCamera := cam\<rparr>) (setCamera cam st) = Some (s2, st2)"
    using crossfade_returns by (metis surj_pair)
  obtain st3 where f: "finishRuler Front s2
      (callViewer FitSphereToWindow (callViewer AdjustClippingPlanesToSphere st2)) = Some st3"
    using finishRuler_returns by blast
  show ?thesis
    using c f
    by (simp add: animateReset_def Let_def raw_def[symmetric] cam_def[symmetric]
        split: option.splits)
qed

lemma setScaleRuler_camera:
  assumes "setScaleRuler e i st = Some st'" "\<not> (e \<and> justLoaded st \<and> threeObject st \<noteq> None)"
  shows "viewerCamera st' = viewerCamera st" "currentViewDirection st' = currentViewDirection st"
proof -
  have "viewerCamera st' = viewerCamera st \<and> currentViewDirection st' = currentViewDirection st"
  proof (cases "threeObject st")
    case None
    with assms show ?thesis by (simp add: setScaleRuler_noTarget)
  next
    case (Some obj)
    show ?thesis
    proof (cases e)
      case True
      with assms Some have "\<not> justLoaded st" by simp
      with setScaleRuler_rebuild(6,7)[OF Some, of i st'] assms(1) True show ?thesis
        by (simp add: prepared_fields)
    next
      case False
      with assms Some show ?thesis
        by (auto simp: setScaleRuler_def Let_def callViewer_def split: if_splits)
    qed
  qed
  then show "viewerCamera st' = viewerCamera st" "currentViewDirection st' = currentViewDirection st"
    by simp_all
qed

lemma crossfade_camera:
  assumes "crossfade d raw s st = Some (s', st')"
    "\<not> (rebuildsNow raw s \<and> justLoaded st \<and> threeObject st \<noteq> None)"
  shows "viewerCamera st' = viewerCamera st"
proof (cases "rebuildsNow raw s")
  case False
  with assms(1) show ?thesis by (simp add: crossfade_quiet)
next
  case True
  with assms(1) obtain y where y:
    "setScaleRuler True (currentRulerMeshIndex st) (st\<lparr>currentViewDirection := d\<rparr>) = Some y"
    "st' = setRulerGroupOpacity ((raw - 0.5) * 2) (setRulerGroupOpacity 0 y)"
    by (auto simp: crossfade_def rebuildsNow_def bind_eq_Some_conv split: if_splits)
  from True assms(2) have "\<not> (True \<and> justLoaded (st\<lparr>currentViewDirection := d\<rparr>)
      \<and> threeObject (st\<lparr>currentViewDirection := d\<rparr>) \<noteq> None)" by simp
  from setScaleRuler_camera(1)[OF y(1) this] show ?thesis
    by (simp add: y(2) setRulerGroupOpacity_fields)
qed

lemma finishRuler_camera:
  assumes "finishRuler d s st = Some st'"
    "\<not> (hasRuler s \<and> \<not> rulerRebuilt s \<and> justLoaded st \<and> threeObject st \<noteq> None)"
  shows "viewerCamera st' = viewerCamera st"
proof (cases "hasRuler s \<and> \<not> rulerRebuilt s")
  case False
  with assms(1) show ?thesis by (auto simp: finishRuler_rebuilt)
next
  case True
  with assms(1) obtain y where y:
    "setScaleRuler True (currentRulerMeshIndex st) (st\<lparr>currentViewDirection := d\<rparr>) = Some y"
    "st' = setRulerGroupOpacity 1 y"
    by (auto simp: finishRuler_def Let_def bind_eq_Some_conv split: if_splits)
  from True assms(2) have "\<not> (True \<and> justLoaded (st\<lparr>currentViewDirection := d\<rparr>)
      \<and> threeObject (st\<lparr>currentViewDirection := d\<rparr>) \<noteq> None)" by simp
  from setScaleRuler_camera(1)[OF y(1) this] show ?thesis
    by (simp add: y(2) setRulerGroupOpacity_fields)
qed

lemma animate_unfold:
  "animate s now st =
    do {
      (s2, st2) \<leftarrow> crossfade (direction s) (rawProgress s now)
                     (s\<lparr>sessionCamera := frameCamera s now\<rparr>) (setCamera (frameCamera s now) st);
      if rawProgress s now < 1 then Some (snd (requestAnimationFrame (DirectionFrame s2) st2))
      else finishRuler (direction s2) s2 (callViewer AdjustClippingPlanesToSphere st2)
    }"
  by (simp add: animate_def Let_def frameCamera_def)

lemma animateReset_unfold:
  "animateReset s now st =
    do {
      (s2, st2) \<leftarrow> crossfade Front (rawProgress s now)
                     (s\<lparr>sessionCamera := frameCamera s now\<rparr>) (setCamera (frameCamera s now) st);
      if rawProgress s now < 1 then Some (snd (requestAnimationFrame (ResetFrame s2) st2))
      else
        (case getBoundingSphere st2 of
           None \<Rightarrow> Some (raise TypeError st2)
         | Some boundingSphere \<Rightarrow>
             finishRuler Front s2
               (callViewer FitSphereToWindow (callViewer AdjustClippingPlanesToSphere st2)))
    }"
  by (simp add: animateReset_def Let_def frameCamera_def)

lemma animate_camera:
  assumes run: "animate s now st = Some st'"
    and calm: "\<not> (rebuildsNow (rawProgress s now) s \<and> justLoaded st \<and> threeObject st \<noteq> None)"
  shows "viewerCamera st' = frameCamera s now"
proof -
  let ?raw = "rawProgress s now" and ?cam = "frameCamera s now"
  from run obtain s2 st2 where
    c: "crossfade (direction s) ?raw (s\<lparr>sessionCamera := ?cam\<rparr>) (setCamera ?cam st) = Some (s2, st2)"
    and r: "(if ?raw < 1 then Some (snd (requestAnimationFrame (DirectionFrame s2) st2))
             else finishRuler (direction s2) s2 (callViewer AdjustClippingPlanesToSphere st2)) = Some st'"
    by (auto simp: animate_unfold bind_eq_Some_conv)
  have "\<not> (rebuildsNow ?raw (s\<lparr>sessionCamera := ?cam\<rparr>) \<and> justLoaded (setCamera ?cam st)
      \<and> threeObject (setCamera ?cam st) \<noteq> None)"
    using calm by (simp add: rebuildsNow_def setCamera_def callViewer_def)
  from crossfade_camera[OF c this] have cam2: "viewerCamera st2 = ?cam"
    by (simp add: setCamera_def callViewer_def)
  show ?thesis
  proof (cases "?raw < 1")
    case True
    with r cam2 show ?thesis by (auto simp: requestAnimationFrame_def)
  next
    case False
    with r have f: "finishRuler (direction s2) s2 (callViewer AdjustClippingPlanesToSphere st2) = Some st'"
      by simp
    have "rawProgress s now = 1" using False by (simp add: rawProgress_def)
    then have "hasRuler s2 \<longrightarrow> rulerRebuilt s2"
      using crossfade_session[OF c] by simp
    then have "\<not> (hasRuler s2 \<and> \<not> rulerRebuilt s2
        \<and> justLoaded (callViewer AdjustClippingPlanesToSphere st2)
        \<and> threeObject (callViewer AdjustClippingPlanesToSphere st2) \<noteq> None)" by simp
    from finishRuler_camera[OF f this] cam2 show ?thesis by (simp add: callViewer_def)
  qed
qed

subsection \<open>The geometry of a transition\<close>

lemma directionTable_unit:
  "directionTable d = ((a, b, c), (u, v, w)) \<Longrightarrow> a * a + b * b + c * c = 1 \<and> u * u + v * v + w * w = 1"
  by (cases d) auto

lemma directionSession_fields:
  "direction (directionSession d T st) = d"
  "upVec (directionSession d T st) = snd (directionTable d)"
  "sessionCamera (directionSession d T st) = viewerCamera st"
  "dist (directionSession d T st) = vlength (vsub (eye (viewerCamera st)) (center (viewerCamera st)))"
  "targetEye (directionSession d T st)
     = vadd (center (viewerCamera st))
         (vscale (vlength (vsub (eye (viewerCamera st)) (center (viewerCamera st))))
            (fst (directionTable d)))"
  "startEye (directionSession d T st) = eye (viewerCamera st)"
  "startUp (directionSession d T st) = up (viewerCamera st)"
  "hasRuler (directionSession d T st) = (rulerGroup st \<noteq> None)"
  "rulerRebuilt (directionSession d T st) = False"
  "startTime (directionSession d T st) = T"
  by (cases "directionTable d"; cases "fst (directionTable d)"; cases "center (viewerCamera st)";
      simp add: directionSession_def Let_def mult.commute)+

lemma vlength_nonneg [simp]: "0 \<le> vlength v"
  by (cases v) simp

lemma easeOut_1 [simp]: "easeOut 1 = 1"
  by (simp add: easeOut_def)

lemma rawProgress_done: "startTime s + 400 \<le> now \<Longrightarrow> rawProgress s now = 1"
  by (simp add: rawProgress_def min_def)

lemma sqrt_scaled_unit:
  fixes a b c k :: real
  assumes "a * a + b * b + c * c = 1" "0 \<le> k"
  shows "sqrt (a * k * (a * k) + b * k * (b * k) + c * k * (c * k)) = k"
proof -
  have "a * k * (a * k) + b * k * (b * k) + c * k * (c * k) = (a * a + b * b + c * c) * (k * k)"
    by (simp add: algebra_simps)
  with assms show ?thesis by (simp add: real_sqrt_mult)
qed

text \<open>At the end of a transition the eye is at the target and the up vector is the table's.\<close>

lemma orbitEye_final:
  assumes "directionTable d = ((a, b, c), upV)" "center (sessionCamera s) = (cx, cy, cz)"
    "targetEye s = (cx + a * dist s, cy + b * dist s, cz + c * dist s)" "0 \<le> dist s"
  shows "orbitEye s 1 = targetEye s"
proof -
  obtain u v w where upV: "upV = (u, v, w)" by (cases upV) auto
  from directionTable_unit[OF assms(1)[unfolded upV]] have unit: "a * a + b * b + c * c = 1" by simp
  have len: "sqrt (a * dist s * (a * dist s) + b * dist s * (b * dist s) + c * dist s * (c * dist s)) = dist s"
    by (rule sqrt_scaled_unit[OF unit assms(4)])
  obtain sx sy sz where st: "startEye s = (sx, sy, sz)" by (cases "startEye s") auto
  show ?thesis
    by (cases "dist s = 0") (simp_all add: orbitEye_def st assms(2,3) Let_def len)
qed

lemma blendUp_final:
  assumes "directionTable d = (dirVec, (u, v, w))" "upVec s = (u, v, w)"
  shows "blendUp s 1 = (u, v, w)"
proof -
  obtain a b c where dv: "dirVec = (a, b, c)" by (cases dirVec) auto
  from directionTable_unit[OF assms(1)[unfolded dv]] have unit: "u * u + v * v + w * w = 1" by simp
  obtain sx sy sz where st: "startUp s = (sx, sy, sz)" by (cases "startUp s") auto
  show ?thesis by (simp add: blendUp_def st assms(2) Let_def unit)
qed

lemma frameCamera_final:
  assumes "startTime (directionSession d T st) + 400 \<le> now"
  shows "frameCamera (directionSession d T st) now
    = (viewerCamera st)\<lparr>
        eye := vadd (center (viewerCamera st))
                 (vscale (vlength (vsub (eye (viewerCamera st)) (center (viewerCamera st))))
                    (fst (directionTable d))),
        up := snd (directionTable d)\<rparr>"
proof -
  let ?s = "directionSession d T st"
  obtain a b c u v w where t: "directionTable d = ((a, b, c), (u, v, w))"
    by (cases "directionTable d"; cases "fst (directionTable d)"; cases "snd (directionTable d)") auto
  obtain cx cy cz where c: "center (viewerCamera st) = (cx, cy, cz)"
    by (cases "center (viewerCamera st)") auto
  have e: "orbitEye ?s 1 = targetEye ?s"
    by (rule orbitEye_final[OF t]) (simp_all add: directionSession_fields c t mult.commute)
  have u: "blendUp ?s 1 = (u, v, w)"
    by (rule blendUp_final[OF t]) (simp add: directionSession_fields t)
  show ?thesis
    by (simp add: frameCamera_def rawProgress_done[OF assms] e u directionSession_fields t)
qed

lemma vlength_zero_iff: "vlength v = 0 \<longleftrightarrow> v = (0, 0, 0)"
proof (cases v)
  case (fields x y z)
  have "x * x + y * y + z * z = 0 \<longleftrightarrow> x = 0 \<and> y = 0 \<and> z = 0"
    by (metis add_nonneg_eq_0_iff add_nonneg_nonneg mult_eq_0_iff zero_le_square)
  then show ?thesis by (simp add: fields)
qed

lemma vlength_normalised:
  fixes x y z :: real
  assumes "0 < sqrt (x * x + y * y + z * z)" "0 \<le> k"
  defines "L \<equiv> sqrt (x * x + y * y + z * z)"
  shows "sqrt (x / L * k * (x / L * k) + y / L * k * (y / L * k) + z / L * k * (z / L * k)) = k"
proof -
  have L: "0 < L" using assms(1) by (simp add: L_def)
  have sq: "L * L = x * x + y * y + z * z"
    using L by (simp add: L_def)
  have "x / L * k * (x / L * k) + y / L * k * (y / L * k) + z / L * k * (z / L * k)
      = (x * x + y * y + z * z) / (L * L) * (k * k)"
    by (simp add: field_simps add_divide_distrib)
  also have "\<dots> = k * k" using L by (simp add: sq[symmetric])
  finally show ?thesis using assms(2) by simp
qed

text \<open>Off the center the eye is put back on the sphere; a non-zero up vector is normalised.\<close>

lemma orbitEye_distance:
  assumes "lerp (startEye s) (targetEye s) t \<noteq> center (sessionCamera s)" "0 \<le> dist s"
  shows "vlength (vsub (orbitEye s t) (center (sessionCamera s))) = dist s"
proof -
  obtain sx sy sz where a: "startEye s = (sx, sy, sz)" by (cases "startEye s") auto
  obtain tx ty tz where b: "targetEye s = (tx, ty, tz)" by (cases "targetEye s") auto
  obtain cx cy cz where c: "center (sessionCamera s) = (cx, cy, cz)"
    by (cases "center (sessionCamera s)") auto
  define dx dy dz where "dx = sx + (tx - sx) * t - cx" and "dy = sy + (ty - sy) * t - cy"
    and "dz = sz + (tz - sz) * t - cz"
  from assms(1) have "(dx, dy, dz) \<noteq> (0, 0, 0)"
    by (auto simp: lerp_def a b c dx_def dy_def dz_def mult.commute)
  then have "vlength (dx, dy, dz) \<noteq> 0" by (simp only: vlength_zero_iff) simp
  then have "0 < vlength (dx, dy, dz)"
    using vlength_nonneg[of "(dx, dy, dz)"] by linarith
  then have pos: "0 < sqrt (dx * dx + dy * dy + dz * dz)" by simp
  have "orbitEye s t = (cx + dx / sqrt (dx * dx + dy * dy + dz * dz) * dist s,
                        cy + dy / sqrt (dx * dx + dy * dy + dz * dz) * dist s,
                        cz + dz / sqrt (dx * dx + dy * dy + dz * dz) * dist s)"
    using pos by (simp add: orbitEye_def a b c Let_def dx_def dy_def dz_def)
  then show ?thesis
    using vlength_normalised[OF pos assms(2)] by (simp add: c)
qed

lemma blendUp_unit:
  assumes "lerp (startUp s) (upVec s) t \<noteq> (0, 0, 0)"
  shows "vlength (blendUp s t) = 1"
proof -
  obtain sx sy sz where a: "startUp s = (sx, sy, sz)" by (cases "startUp s") auto
  obtain vx vy vz where b: "upVec s = (vx, vy, vz)" by (cases "upVec s") auto
  define ux uy uz where "ux = sx + (vx - sx) * t" and "uy = sy + (vy - sy) * t"
    and "uz = sz + (vz - sz) * t"
  from assms have "(ux, uy, uz) \<noteq> (0, 0, 0)"
    by (auto simp: lerp_def a b ux_def uy_def uz_def mult.commute)
  then have "vlength (ux, uy, uz) \<noteq> 0" by (simp only: vlength_zero_iff) simp
  then have "0 < vlength (ux, uy, uz)"
    using vlength_nonneg[of "(ux, uy, uz)"] by linarith
  then have pos: "0 < sqrt (ux * ux + uy * uy + uz * uz)" by simp
  have "blendUp s t = (ux / sqrt (ux * ux + uy * uy + uz * uz),
                       uy / sqrt (ux * ux + uy * uy + uz * uz),
                       uz / sqrt (ux * ux + uy * uy + uz * uz))"
    using pos by (simp add: blendUp_def a b Let_def ux_def uy_def uz_def)
  then show ?thesis
    using vlength_normalised[OF pos, of 1] by simp
qed

subsection \<open>Frames with one registered callback\<close>

lemma runFrame_single:
  assumes "pending st = [(h, cb)]"
  shows "runFrame now st = invoke cb now (st\<lparr>pending := []\<rparr>)"
proof -
  obtain r where "invoke cb now (st\<lparr>pending := []\<rparr>) = Some r \<or> invoke cb now (st\<lparr>pending := []\<rparr>) = None"
    by auto
  then show ?thesis
    by (auto simp: runFrame_def runHandle_def assms cancelAnimationFrame_def)
qed

lemma setCameraDirection_registers:
  assumes "directionOf tok = Some d"
  shows "setCameraDirection tok T st
    = st\<lparr>pending := pending st @ [(nextHandle st, DirectionFrame (directionSession d T st))],
         nextHandle := Suc (nextHandle st)\<rparr>"
  by (simp add: setCameraDirection_def assms requestAnimationFrame_def)

lemma resetCamera_registers:
  "resetCamera T st
    = st\<lparr>pending := pending st @ [(nextHandle st, ResetFrame (resetSession T st))],
         nextHandle := Suc (nextHandle st)\<rparr>"
  by (simp add: resetCamera_def requestAnimationFrame_def)

subsection \<open>Claim C3: the eye stays on its sphere\<close>

text \<open>
  The eased progress is one half only at \<open>raw = 1 - root 3 (1/2)\<close>, which is irrational:
  no frame time that is a floating-point number gives it.
\<close>

lemma cube_not_half:
  fixes x :: real
  assumes "x \<in> \<rat>"
  shows "x * x * x \<noteq> 1 / 2"
proof
  assume h: "x * x * x = 1 / 2"
  from assms obtain m n :: nat where mn: "n \<noteq> 0" "\<bar>x\<bar> = real m / real n" "coprime m n"
    by (rule Rats_abs_nat_div_natE)
  have "\<bar>x\<bar> * \<bar>x\<bar> * \<bar>x\<bar> = \<bar>x * x * x\<bar>" by (simp add: abs_mult)
  also have "\<dots> = 1 / 2" by (simp add: h)
  finally have "(real m / real n) * (real m / real n) * (real m / real n) = 1 / 2"
    by (simp only: mn(2))
  then have "(real m * real m * real m) / (real n * real n * real n) = 1 / 2"
    by (simp only: times_divide_times_eq)
  moreover have "real n * real n * real n \<noteq> 0" using mn(1) by simp
  ultimately have "(real m * real m * real m) * 2 = 1 * (real n * real n * real n)"
    by (subst (asm) frac_eq_eq) simp_all
  then have "2 * (real m * real m * real m) = real n * real n * real n" by simp
  then have "real (2 * (m * m * m)) = real (n * n * n)" by simp
  then have e: "2 * (m * m * m) = n * n * n" by (rule of_nat_eq_iff[THEN iffD1])
  then have "even (n * n * n)" by (metis dvd_triv_left)
  then have en: "even n" by simp
  then obtain c where c: "n = 2 * c" by (elim evenE)
  from e have "m * m * m = 4 * (c * c * c)" by (simp add: c)
  then have "even (m * m * m)" by simp
  then have em: "even m" by simp
  from coprime_common_divisor[OF mn(3) em en] show False by simp
qed

lemma easeOut_not_half:
  assumes "raw \<in> \<rat>"
  shows "easeOut raw \<noteq> 1 / 2"
proof
  assume "easeOut raw = 1 / 2"
  then have "(1 - raw) * (1 - raw) * (1 - raw) = 1 / 2" by (simp add: easeOut_def)
  moreover have "1 - raw \<in> \<rat>" using assms by (intro Rats_diff) simp_all
  ultimately show False using cube_not_half by blast
qed

lemma rawProgress_rational:
  assumes "startTime s \<in> \<rat>" "now \<in> \<rat>"
  shows "rawProgress s now \<in> \<rat>"
proof -
  have "(now - startTime s) / 400 \<in> \<rat>"
    using assms by (intro Rats_divide Rats_diff) simp_all
  then show ?thesis by (simp add: rawProgress_def min_def)
qed

text \<open>
  A point interpolated between two points of a sphere is its center only halfway between
  two antipodes.
\<close>

lemma vlength_sq: "vlength (x, y, z) = r \<Longrightarrow> x * x + y * y + z * z = r * r"
proof -
  assume a: "vlength (x, y, z) = r"
  have "0 \<le> x * x + y * y + z * z" by simp
  then have "sqrt (x * x + y * y + z * z) * sqrt (x * x + y * y + z * z) = x * x + y * y + z * z"
    by simp
  with a show ?thesis by simp
qed

lemma lerp_off_center:
  assumes a: "vlength (vsub p c) = r" and b: "vlength (vsub q c) = r" and r: "0 < r"
    and t: "t \<noteq> 1 / 2"
  shows "lerp p q t \<noteq> c"
proof
  assume l: "lerp p q t = c"
  obtain p1 p2 p3 where p: "p = (p1, p2, p3)" by (cases p) auto
  obtain q1 q2 q3 where q: "q = (q1, q2, q3)" by (cases q) auto
  obtain c1 c2 c3 where c: "c = (c1, c2, c3)" by (cases c) auto
  define u1 u2 u3 where "u1 = p1 - c1" and "u2 = p2 - c2" and "u3 = p3 - c3"
  define v1 v2 v3 where "v1 = q1 - c1" and "v2 = q2 - c2" and "v3 = q3 - c3"
  from a have su: "u1 * u1 + u2 * u2 + u3 * u3 = r * r"
    by (intro vlength_sq) (simp add: p c u1_def u2_def u3_def)
  from b have sv: "v1 * v1 + v2 * v2 + v3 * v3 = r * r"
    by (intro vlength_sq) (simp add: q c v1_def v2_def v3_def)
  from l have e: "(1 - t) * u1 = - (t * v1)" "(1 - t) * u2 = - (t * v2)" "(1 - t) * u3 = - (t * v3)"
    by (simp_all add: lerp_def p q c u1_def u2_def u3_def v1_def v2_def v3_def algebra_simps)
  have "(1 - t) * (1 - t) * (u1 * u1 + u2 * u2 + u3 * u3)
      = ((1 - t) * u1) * ((1 - t) * u1) + ((1 - t) * u2) * ((1 - t) * u2)
        + ((1 - t) * u3) * ((1 - t) * u3)"
    by (simp add: algebra_simps)
  also have "\<dots> = t * t * (v1 * v1 + v2 * v2 + v3 * v3)"
    by (simp only: e) (simp add: algebra_simps)
  finally have "(1 - t) * (1 - t) * (r * r) = t * t * (r * r)" by (simp only: su sv)
  then have "(1 - t) * (1 - t) = t * t" using r by simp
  then have "1 - 2 * t = 0" by (simp add: algebra_simps)
  with t show False by simp
qed

lemma orbitEye_at_center:
  assumes "startEye s = center (sessionCamera s)" "targetEye s = center (sessionCamera s)"
  shows "orbitEye s t = center (sessionCamera s)"
proof -
  obtain cx cy cz where c: "center (sessionCamera s) = (cx, cy, cz)"
    by (cases "center (sessionCamera s)") auto
  show ?thesis by (simp add: orbitEye_def assms c Let_def)
qed

lemma target_on_sphere:
  assumes "directionTable d = (dir, upV)" "0 \<le> k"
  shows "vlength (vsub (vadd c (vscale k dir)) c) = k" "vlength upV = 1"
proof -
  obtain a b e where dir: "dir = (a, b, e)" by (cases dir) auto
  obtain u v w where upV: "upV = (u, v, w)" by (cases upV) auto
  obtain cx cy cz where c: "c = (cx, cy, cz)" by (cases c) auto
  from directionTable_unit[OF assms(1)[unfolded dir upV]]
  have unit: "a * a + b * b + e * e = 1" "u * u + v * v + w * w = 1" by simp_all
  have "sqrt (a * k * (a * k) + b * k * (b * k) + e * k * (e * k)) = k"
    by (rule sqrt_scaled_unit[OF unit(1) assms(2)])
  then show "vlength (vsub (vadd c (vscale k dir)) c) = k"
    by (simp add: dir c mult.commute)
  show "vlength upV = 1" by (simp add: upV unit(2))
qed

lemma vsub_zero [simp]: "vsub p (0, 0, 0) = p"
  by (cases p) simp



subsection \<open>Exceptions in the frames of a transition\<close>

lemma getBoundingSphere_cong:
  "threeObject st' = threeObject st \<Longrightarrow> getBoundingSphere st' = getBoundingSphere st"
  by (simp add: getBoundingSphere_def)

lemma getBoundingSphere_none: "threeObject st = None \<Longrightarrow> getBoundingSphere st = None"
  by (simp add: getBoundingSphere_def)

lemma raise_fields:
  "viewerCamera (raise e st) = viewerCamera st" "uncaught (raise e st) = uncaught st @ [e]"
  "pending (raise e st) = pending st" "nextHandle (raise e st) = nextHandle st"
  "autoRotateId (raise e st) = autoRotateId st" "threeObject (raise e st) = threeObject st"
  "currentViewDirection (raise e st) = currentViewDirection st"
  "viewerCalls (raise e st) = viewerCalls st" "justLoaded (raise e st) = justLoaded st"
  "rulerGroup (raise e st) = rulerGroup st"
  by (simp_all add: raise_def)

text \<open>No frame of a directed transition raises an exception.\<close>

lemma animate_uncaught:
  assumes "animate s now st = Some st'"
  shows "uncaught st' = uncaught st"
proof -
  let ?cam = "frameCamera s now"
  from assms obtain s2 st2 where
    c: "crossfade (direction s) (rawProgress s now) (s\<lparr>sessionCamera := ?cam\<rparr>) (setCamera ?cam st)
          = Some (s2, st2)"
    and r: "(if rawProgress s now < 1 then Some (snd (requestAnimationFrame (DirectionFrame s2) st2))
             else finishRuler (direction s2) s2 (callViewer AdjustClippingPlanesToSphere st2)) = Some st'"
    by (auto simp: animate_unfold bind_eq_Some_conv)
  from crossfade_sameSchedule[OF c] have a: "uncaught st2 = uncaught st"
    by (simp add: sameSchedule_def setCamera_def callViewer_def)
  show ?thesis
  proof (cases "rawProgress s now < 1")
    case True
    with r a show ?thesis by (auto simp: requestAnimationFrame_def)
  next
    case False
    with r have "finishRuler (direction s2) s2 (callViewer AdjustClippingPlanesToSphere st2) = Some st'"
      by simp
    from finishRuler_sameSchedule[OF this] a show ?thesis
      by (simp add: sameSchedule_def callViewer_def)
  qed
qed

text \<open>
  A frame of \<^verbatim>\<open>resetCamera\<close>: the camera it leaves, and the exception of its last frame
  when the viewer has no bounding sphere.
\<close>

lemma animateReset_frame:
  assumes run: "animateReset s now st = Some st'"
    and calm: "\<not> (rebuildsNow (rawProgress s now) s \<and> justLoaded st \<and> threeObject st \<noteq> None)"
  shows "viewerCamera st' = frameCamera s now"
    and "uncaught st' =
      (if rawProgress s now < 1 \<or> getBoundingSphere st \<noteq> None then uncaught st
       else uncaught st @ [TypeError])"
proof -
  let ?raw = "rawProgress s now" and ?cam = "frameCamera s now"
  from run obtain s2 st2 where
    c: "crossfade Front ?raw (s\<lparr>sessionCamera := ?cam\<rparr>) (setCamera ?cam st) = Some (s2, st2)"
    and r: "(if ?raw < 1 then Some (snd (requestAnimationFrame (ResetFrame s2) st2))
             else (case getBoundingSphere st2 of
                 None \<Rightarrow> Some (raise TypeError st2)
               | Some boundingSphere \<Rightarrow>
                   finishRuler Front s2
                     (callViewer FitSphereToWindow (callViewer AdjustClippingPlanesToSphere st2))))
            = Some st'"
    by (auto simp: animateReset_unfold bind_eq_Some_conv)
  have "\<not> (rebuildsNow ?raw (s\<lparr>sessionCamera := ?cam\<rparr>) \<and> justLoaded (setCamera ?cam st)
      \<and> threeObject (setCamera ?cam st) \<noteq> None)"
    using calm by (simp add: rebuildsNow_def setCamera_def callViewer_def)
  from crossfade_camera[OF c this] have cam2: "viewerCamera st2 = ?cam"
    by (simp add: setCamera_def callViewer_def)
  from crossfade_sameSchedule[OF c] have a: "uncaught st2 = uncaught st"
    "threeObject st2 = threeObject st"
    by (simp_all add: sameSchedule_def setCamera_def callViewer_def)
  note bs = getBoundingSphere_cong[OF a(2)]
  have "viewerCamera st' = ?cam \<and> uncaught st' =
      (if ?raw < 1 \<or> getBoundingSphere st \<noteq> None then uncaught st else uncaught st @ [TypeError])"
  proof (cases "?raw < 1")
    case True
    with r cam2 a show ?thesis by (auto simp: requestAnimationFrame_def)
  next
    case False
    show ?thesis
    proof (cases "getBoundingSphere st")
      case None
      with r False bs have "st' = raise TypeError st2" by simp
      with cam2 a False None show ?thesis by (simp add: raise_fields)
    next
      case (Some b)
      with r False bs have f: "finishRuler Front s2
          (callViewer FitSphereToWindow (callViewer AdjustClippingPlanesToSphere st2)) = Some st'"
        by simp
      have "rawProgress s now = 1" using False by (simp add: rawProgress_def)
      then have "hasRuler s2 \<longrightarrow> rulerRebuilt s2"
        using crossfade_session[OF c] by simp
      then have "\<not> (hasRuler s2 \<and> \<not> rulerRebuilt s2
          \<and> justLoaded (callViewer FitSphereToWindow (callViewer AdjustClippingPlanesToSphere st2))
          \<and> threeObject (callViewer FitSphereToWindow (callViewer AdjustClippingPlanesToSphere st2)) \<noteq> None)"
        by simp
      from finishRuler_camera[OF f this] cam2 have "viewerCamera st' = ?cam"
        by (simp add: callViewer_def)
      moreover from finishRuler_sameSchedule[OF f] a have "uncaught st' = uncaught st"
        by (simp add: sameSchedule_def callViewer_def)
      ultimately show ?thesis using Some by simp
    qed
  qed
  then show "viewerCamera st' = frameCamera s now"
    and "uncaught st' =
      (if rawProgress s now < 1 \<or> getBoundingSphere st \<noteq> None then uncaught st
       else uncaught st @ [TypeError])"
    by simp_all
qed

lemma directionOf_top [simp]: "directionOf ''top'' = Some Top"
  by (simp add: directionOf_def)

lemma directionOf_right [simp]: "directionOf ''right'' = Some Right"
  by (simp add: directionOf_def)

lemma frontCamera_distance [simp]: "vlength (vsub (eye frontCamera) (center frontCamera)) = 5"
  by (simp add: frontCamera_def)




text \<open>The eye-level camera of lines 762-768, for a given camera.\<close>

lemma crossfade_afterLoad:
  assumes c: "crossfade d raw s st = Some (s', st')"
    and r: "rebuildsNow raw s" and j: "justLoaded st" and obj: "threeObject st = Some obj"
  shows "viewerCamera st'
      = (viewerCamera st)\<lparr>eye := vadd (center (viewerCamera st))
             (0, 0, vlength (vsub (eye (viewerCamera st)) (center (viewerCamera st)))),
           up := (0, 1, 0)\<rparr>"
    and "currentViewDirection st' = Front" and "justLoaded st' = False"
proof -
  from c r obtain y where y:
    "setScaleRuler True (currentRulerMeshIndex st) (st\<lparr>currentViewDirection := d\<rparr>) = Some y"
    "st' = setRulerGroupOpacity ((raw - 0.5) * 2) (setRulerGroupOpacity 0 y)"
    by (auto simp: crossfade_def rebuildsNow_def bind_eq_Some_conv split: if_splits)
  have o: "threeObject (st\<lparr>currentViewDirection := d\<rparr>) = Some obj" using obj by simp
  note rb = setScaleRuler_rebuild(4,6,7)[OF o y(1)]
  show "viewerCamera st'
      = (viewerCamera st)\<lparr>eye := vadd (center (viewerCamera st))
             (0, 0, vlength (vsub (eye (viewerCamera st)) (center (viewerCamera st)))),
           up := (0, 1, 0)\<rparr>"
    using rb j by (simp add: y(2) setRulerGroupOpacity_fields prepared_fields)
  show "currentViewDirection st' = Front"
    using rb j by (simp add: y(2) setRulerGroupOpacity_fields prepared_fields)
  show "justLoaded st' = False"
    using rb by (simp add: y(2) setRulerGroupOpacity_fields)
qed

lemma animate_afterLoad:
  assumes run: "animate s now st = Some st'" and fin: "rawProgress s now = 1"
    and r: "hasRuler s" "\<not> rulerRebuilt s" and j: "justLoaded st" and obj: "threeObject st = Some obj"
  shows "viewerCamera st'
      = (frameCamera s now)\<lparr>eye := vadd (center (frameCamera s now))
             (0, 0, vlength (vsub (eye (frameCamera s now)) (center (frameCamera s now)))),
           up := (0, 1, 0)\<rparr>"
    and "currentViewDirection st' = Front"
proof -
  let ?cam = "frameCamera s now"
  from run fin obtain s2 st2 where
    c: "crossfade (direction s) 1 (s\<lparr>sessionCamera := ?cam\<rparr>) (setCamera ?cam st) = Some (s2, st2)"
    and f: "finishRuler (direction s2) s2 (callViewer AdjustClippingPlanesToSphere st2) = Some st'"
    by (auto simp: animate_unfold bind_eq_Some_conv)
  have rn: "rebuildsNow 1 (s\<lparr>sessionCamera := ?cam\<rparr>)" using r by (simp add: rebuildsNow_def)
  have j': "justLoaded (setCamera ?cam st)" using j by (simp add: setCamera_def callViewer_def)
  have o': "threeObject (setCamera ?cam st) = Some obj"
    using obj by (simp add: setCamera_def callViewer_def)
  note a = crossfade_afterLoad[OF c rn j' o']
  have s2: "rulerRebuilt s2" using crossfade_session[OF c] r by simp
  have calm: "rulerRebuilt s2 \<or> \<not> hasRuler s2
      \<or> threeObject (callViewer AdjustClippingPlanesToSphere st2) = None"
    using s2 by simp
  note b = finishRuler_rebuilt(4,6)[OF f calm]
  show "viewerCamera st'
      = ?cam\<lparr>eye := vadd (center ?cam) (0, 0, vlength (vsub (eye ?cam) (center ?cam))),
             up := (0, 1, 0)\<rparr>"
    using a(1) b(1) by (simp add: callViewer_def setCamera_def)
  show "currentViewDirection st' = Front"
    using a(2) b(2) s2 by (simp add: callViewer_def)
qed

subsection \<open>Claim C9\<close>

text \<open>
  Away from the first ruler build after a load, the last frame of a directed transition
  leaves the eye at \<open>center + distance * direction\<close> with the up vector of the table.
\<close>

lemma transition_completes_at_target:
  assumes tok: "directionOf tok = Some d"
    and late: "T + 400 \<le> now"
    and calm: "\<not> (rulerGroup st \<noteq> None \<and> justLoaded st' \<and> threeObject st' \<noteq> None)"
  shows "\<exists>st''. animate (directionSession d T st) now st' = Some st''
    \<and> viewerCamera st''
        = (viewerCamera st)\<lparr>
            eye := vadd (center (viewerCamera st))
                     (vscale (vlength (vsub (eye (viewerCamera st)) (center (viewerCamera st))))
                        (fst (directionTable d))),
            up := snd (directionTable d)\<rparr>"
proof -
  let ?s = "directionSession d T st"
  obtain st'' where a: "animate ?s now st' = Some st''" using animate_returns by blast
  have "\<not> (rebuildsNow (rawProgress ?s now) ?s \<and> justLoaded st' \<and> threeObject st' \<noteq> None)"
    using calm by (auto simp: rebuildsNow_def directionSession_fields)
  from animate_camera[OF a this] have "viewerCamera st'' = frameCamera ?s now" .
  also have "\<dots> = (viewerCamera st)\<lparr>
            eye := vadd (center (viewerCamera st))
                     (vscale (vlength (vsub (eye (viewerCamera st)) (center (viewerCamera st))))
                        (fst (directionTable d))),
            up := snd (directionTable d)\<rparr>"
    by (rule frameCamera_final) (simp add: directionSession_fields late)
  finally show ?thesis using a by blast
qed

text \<open>The state that a load leaves, for an object with a mesh.\<close>

definition unitBox :: box3 where
  "unitBox = spanBox (0, 0, 0) (1, 1, 1)"

lemma boxObject_sphere:
  "threeObject st = Some (boxObject b) \<Longrightarrow> getBoundingSphere st = Some (boxSphere b)"
  by (simp add: getBoundingSphere_def boxObject_def)

lemma onModelFinished_fields:
  assumes "meshBoxes obj \<noteq> []"
  shows "threeObject (onModelFinished obj fit st) = Some obj"
  "justLoaded (onModelFinished obj fit st) = True"
  "rulerGroup (onModelFinished obj fit st) = rulerGroup st"
  "pending (onModelFinished obj fit st) = pending st"
  "nextHandle (onModelFinished obj fit st) = nextHandle st"
  "autoRotateId (onModelFinished obj fit st) = autoRotateId st"
  "autoRotatePrev (onModelFinished obj fit st) = autoRotatePrev st"
  "uncaught (onModelFinished obj fit st) = uncaught st"
proof -
  from assms obtain b bs where m: "meshBoxes obj = b # bs" by (cases "meshBoxes obj") auto
  show "threeObject (onModelFinished obj fit st) = Some obj"
  "justLoaded (onModelFinished obj fit st) = True"
  "rulerGroup (onModelFinished obj fit st) = rulerGroup st"
  "pending (onModelFinished obj fit st) = pending st"
  "nextHandle (onModelFinished obj fit st) = nextHandle st"
  "autoRotateId (onModelFinished obj fit st) = autoRotateId st"
  "autoRotatePrev (onModelFinished obj fit st) = autoRotatePrev st"
  "uncaught (onModelFinished obj fit st) = uncaught st"
    by (simp_all add: onModelFinished_def Let_def setCamera_def callViewer_def
        getBoundingSphere_def m fitSphereToWindow_def split: prod.splits)
qed

lemma loadInputFiles_fields:
  "threeObject (loadInputFiles st) = None"
  "justLoaded (loadInputFiles st) = justLoaded st"
  "rulerGroup (loadInputFiles st) = rulerGroup st"
  "pending (loadInputFiles st) = pending st"
  "nextHandle (loadInputFiles st) = nextHandle st"
  "autoRotateId (loadInputFiles st) = autoRotateId st"
  "autoRotatePrev (loadInputFiles st) = autoRotatePrev st"
  "viewerCamera (loadInputFiles st) = viewerCamera st"
  "uncaught (loadInputFiles st) = uncaught st"
  by (simp_all add: loadInputFiles_def callViewer_def)

text \<open>
  A ruler is shown for a first model, and a second model is loaded: the load sets
  \<^verbatim>\<open>justLoaded\<close> and leaves the stale \<^verbatim>\<open>rulerGroup\<close> in place.
\<close>

definition reloaded :: state where
  "reloaded =
    the (run [LoadFinishes (boxObject unitBox) 2, CallSetScaleRuler True None,
              LoadStarts, LoadFinishes (boxObject unitBox) 2] idleState)"

lemma reloaded_fields:
  "threeObject reloaded = Some (boxObject unitBox)" "justLoaded reloaded"
  "rulerGroup reloaded \<noteq> None" "pending reloaded = []"
proof -
  let ?obj = "boxObject unitBox"
  have m: "meshBoxes ?obj \<noteq> []" by (simp add: boxObject_def)
  note of = onModelFinished_fields[OF m]
  let ?st1 = "onModelFinished ?obj 2 idleState"
  obtain st2 where st2: "setScaleRuler True None ?st1 = Some st2"
    using setScaleRuler_returns by blast
  have o1: "threeObject ?st1 = Some ?obj" by (simp add: of)
  note rb = setScaleRuler_rebuild(1,2)[OF o1 st2]
  have g2: "rulerGroup st2 \<noteq> None" using rb(2) by auto
  have p2: "pending st2 = []"
    using rb(1) by (simp add: sameSchedule_def of idleState_def)
  have r: "reloaded = onModelFinished ?obj 2 (loadInputFiles st2)"
    by (simp add: reloaded_def st2)
  show "threeObject reloaded = Some (boxObject unitBox)" "justLoaded reloaded"
    "rulerGroup reloaded \<noteq> None" "pending reloaded = []"
    using g2 p2 by (simp_all add: r of loadInputFiles_fields)
qed

lemma top_length: "0 \<le> k \<Longrightarrow> sqrt (k * k) = k"
  by simp

text \<open>
  Claim C9 fails in the first transition after a reload. In a state in which a model has
  just been loaded (\<^verbatim>\<open>justLoaded\<close>) while the ruler group of the model before it is still
  there, with any camera, \<^verbatim>\<open>setCameraDirection('top')\<close> is called and its first frame comes
  when the 400 ms are over. That frame writes the top view, then rebuilds the ruler, and the
  rebuild, taking this for the first enabling after the load, puts the camera back at eye
  level: the transition ends in front of the center, at the distance it started from, with
  the up vector \<open>(0, 1, 0)\<close>, and the view direction is front.
\<close>

theorem C9_reload_then_top:
  assumes "threeObject st = Some obj" and "justLoaded st" and "rulerGroup st \<noteq> None"
    and "pending st = []" and "T + 400 \<le> now"
  shows "\<exists>st'. run [CallSetCameraDirection ''top'' T, Frame now] st = Some st'
    \<and> viewerCamera st'
        = (viewerCamera st)\<lparr>
            eye := vadd (center (viewerCamera st))
                     (0, 0, vlength (vsub (eye (viewerCamera st)) (center (viewerCamera st)))),
            up := (0, 1, 0)\<rparr>
    \<and> currentViewDirection st' = Front"
proof -
  let ?cam = "viewerCamera st"
  let ?k = "vlength (vsub (eye ?cam) (center ?cam))"
  let ?s = "directionSession Top T st"
  let ?st1 = "setCameraDirection ''top'' T st"
  obtain cx cy cz where c: "center ?cam = (cx, cy, cz)" by (cases "center ?cam") auto
  have p: "pending ?st1 = [(nextHandle st, DirectionFrame ?s)]"
    by (simp add: setCameraDirection_registers assms(4))
  obtain st' where a: "animate ?s now (?st1\<lparr>pending := []\<rparr>) = Some st'"
    using animate_returns by blast
  have raw: "rawProgress ?s now = 1"
    by (rule rawProgress_done) (simp add: directionSession_fields assms(5))
  have fc: "frameCamera ?s now = ?cam\<lparr>eye := (cx, cy + ?k, cz), up := (0, 0, - 1)\<rparr>"
    by (subst frameCamera_final) (simp_all add: directionSession_fields assms(5) c)
  have k0: "0 \<le> ?k" by simp
  have d: "vlength (vsub (eye (frameCamera ?s now)) (center (frameCamera ?s now))) = ?k"
    unfolding fc using top_length[OF k0] by (simp add: c)
  have h: "hasRuler ?s" "\<not> rulerRebuilt ?s"
    using assms(3) by (simp_all add: directionSession_fields)
  have f: "justLoaded (?st1\<lparr>pending := []\<rparr>)" "threeObject (?st1\<lparr>pending := []\<rparr>) = Some obj"
    using assms(1,2) by (simp_all add: setCameraDirection_registers)
  note al = animate_afterLoad[OF a raw h f]
  have "viewerCamera st' = ?cam\<lparr>eye := vadd (center ?cam) (0, 0, ?k), up := (0, 1, 0)\<rparr>"
    unfolding al(1) d by (simp add: fc)
  with al(2) show ?thesis
    by (simp add: runFrame_single[OF p] a)
qed

theorem C9_reload_then_top_witness:
  "threeObject reloaded = Some (boxObject unitBox) \<and> justLoaded reloaded
   \<and> rulerGroup reloaded \<noteq> None \<and> pending reloaded = [] \<and> (0::real) + 400 \<le> 400
   \<and> (\<exists>st'. run [CallSetCameraDirection ''top'' 0, Frame 400] reloaded = Some st'
         \<and> up (viewerCamera st') = (0, 1, 0) \<and> currentViewDirection st' = Front)"
proof -
  from C9_reload_then_top[OF reloaded_fields, of 0 400]
  obtain st' where "run [CallSetCameraDirection ''top'' 0, Frame 400] reloaded = Some st'"
    "up (viewerCamera st') = (0, 1, 0)" "currentViewDirection st' = Front"
    by auto
  with reloaded_fields show ?thesis by simp
qed

subsection \<open>Claim C1\<close>

lemma animate_without_ruler:
  assumes "\<not> hasRuler s"
  shows "animate s now st =
    Some (if rawProgress s now < 1
          then snd (requestAnimationFrame
                 (DirectionFrame (s\<lparr>sessionCamera := frameCamera s now\<rparr>))
                 (setCamera (frameCamera s now) st))
          else if rulerRebuilt s
          then callViewer AdjustClippingPlanesToSphere (setCamera (frameCamera s now) st)
          else (callViewer AdjustClippingPlanesToSphere (setCamera (frameCamera s now) st))
                 \<lparr>currentViewDirection := direction s\<rparr>)"
  using assms
  by (simp add: animate_unfold crossfade_def finishRuler_def Let_def)

text \<open>
  Claim C1, as stated: a frame callback of a superseded directed transition detects that it
  no longer owns the active session and is a no-op. The source has no such check. Start a
  transition to the top at time 0 and one to the right at time 100; in the frame at time
  400 both callbacks are still registered, the callback of the first, superseded
  transition writes the top view to the camera and sets \<^verbatim>\<open>currentViewDirection\<close> to top,
  and after the frame (the second transition is still in flight) the direction is top.
\<close>

definition twoTransitions :: state where
  "twoTransitions = setCameraDirection ''right'' 100 (setCameraDirection ''top'' 0 idleState)"

theorem C1_stale_callback_counterexample:
  "map fst (pending twoTransitions) = [0, 1]
   \<and> map_of (pending twoTransitions) 0 = Some (DirectionFrame (directionSession Top 0 idleState))
   \<and> viewerCamera twoTransitions = frontCamera
   \<and> currentViewDirection twoTransitions = Front
   \<and> map_option viewerCamera (animate (directionSession Top 0 idleState) 400 twoTransitions)
       = Some (frontCamera\<lparr>eye := (0, 5, 0), up := (0, 0, - 1)\<rparr>)
   \<and> map_option currentViewDirection (runFrame 400 twoTransitions) = Some Top
   \<and> map_option (map fst \<circ> pending) (runFrame 400 twoTransitions) = Some [2]"
proof -
  let ?A = "directionSession Top 0 idleState"
  let ?st1 = "setCameraDirection ''top'' 0 idleState"
  let ?B = "directionSession Right 100 ?st1"
  have two: "twoTransitions
      = idleState\<lparr>pending := [(0, DirectionFrame ?A), (1, DirectionFrame ?B)], nextHandle := 2\<rparr>"
    by (simp add: twoTransitions_def setCameraDirection_registers idleState_def numeral_2_eq_2)
  have nA: "\<not> hasRuler ?A" by (simp add: directionSession_fields idleState_def)
  have nB: "\<not> hasRuler ?B"
    by (simp add: directionSession_fields setCameraDirection_registers idleState_def)
  have bA: "\<not> rulerRebuilt ?A" by (simp add: directionSession_fields)
  have bB: "\<not> rulerRebuilt ?B" by (simp add: directionSession_fields)
  have rA: "rawProgress ?A 400 = 1" by (simp add: rawProgress_def directionSession_fields)
  have rB: "rawProgress ?B 400 = 3 / 4" by (simp add: rawProgress_def directionSession_fields)
  have fA: "frameCamera ?A 400 = frontCamera\<lparr>eye := (0, 5, 0), up := (0, 0, - 1)\<rparr>"
    by (subst frameCamera_final)
      (simp_all add: directionSession_fields idleState_def, simp add: frontCamera_def)
  have a: "map_option viewerCamera (animate ?A 400 twoTransitions)
       = Some (frontCamera\<lparr>eye := (0, 5, 0), up := (0, 0, - 1)\<rparr>)"
    by (simp add: animate_without_ruler[OF nA] rA bA fA setCamera_def callViewer_def)
  have frame: "runFrame 400 twoTransitions =
      animate ?A 400 (twoTransitions\<lparr>pending := [(1, DirectionFrame ?B)]\<rparr>)
        \<bind> (\<lambda>st. animate ?B 400 (st\<lparr>pending := []\<rparr>))"
    by (simp add: runFrame_def runHandle_def two cancelAnimationFrame_def
        animate_without_ruler[OF nA] animate_without_ruler[OF nB] rA rB bA bB setCamera_def
        callViewer_def requestAnimationFrame_def)
  have d: "map_option currentViewDirection (runFrame 400 twoTransitions) = Some Top"
    by (subst frame) (simp add: animate_without_ruler[OF nA] animate_without_ruler[OF nB] rA rB
        bA bB setCamera_def callViewer_def requestAnimationFrame_def directionSession_fields)
  have p: "map_option (map fst \<circ> pending) (runFrame 400 twoTransitions) = Some [2]"
    by (subst frame) (simp add: animate_without_ruler[OF nA] animate_without_ruler[OF nB] rA rB
        bA bB setCamera_def callViewer_def requestAnimationFrame_def two)
  show ?thesis
    using a d p by (simp add: two) (simp add: idleState_def)
qed

text \<open>
  Claim C1, amended: directed transitions are not exclusive. \<^verbatim>\<open>setCameraDirection\<close> with a
  known direction registers a new frame callback and leaves every callback registered
  before it in place; and a frame callback of a directed transition makes no ownership
  check: in whatever state it runs (outside the first ruler build after a load), also one
  in which later transitions have been started, it returns normally and writes the eye and
  up vector it interpolates from its own captured values to the camera.
\<close>

theorem C1_sessions_not_exclusive:
  assumes "directionOf tok = Some d"
    and "\<not> (justLoaded st' \<and> threeObject st' \<noteq> None)"
  shows "pending (setCameraDirection tok T st)
           = pending st @ [(nextHandle st, DirectionFrame (directionSession d T st))]
    \<and> (\<exists>st''. animate s now st' = Some st'' \<and> viewerCamera st'' = frameCamera s now)"
proof -
  obtain st'' where a: "animate s now st' = Some st''" using animate_returns by blast
  from animate_camera[OF a] assms(2) have "viewerCamera st'' = frameCamera s now" by blast
  with a show ?thesis by (simp add: setCameraDirection_registers[OF assms(1)])
qed

theorem C1_sessions_not_exclusive_witness:
  "directionOf ''right'' = Some Right
   \<and> \<not> (justLoaded twoTransitions \<and> threeObject twoTransitions \<noteq> None)
   \<and> pending twoTransitions
       = pending (setCameraDirection ''top'' 0 idleState)
         @ [(nextHandle (setCameraDirection ''top'' 0 idleState),
             DirectionFrame (directionSession Right 100 (setCameraDirection ''top'' 0 idleState)))]
   \<and> map_option viewerCamera (animate (directionSession Top 0 idleState) 400 twoTransitions)
       = Some (frameCamera (directionSession Top 0 idleState) 400)"
proof -
  have calm: "\<not> (justLoaded twoTransitions \<and> threeObject twoTransitions \<noteq> None)"
    by (simp add: twoTransitions_def setCameraDirection_registers idleState_def)
  from C1_sessions_not_exclusive[of "''right''" Right twoTransitions 100
      "setCameraDirection ''top'' 0 idleState" "directionSession Top 0 idleState" 400] calm
  show ?thesis by (auto simp: twoTransitions_def)
qed

subsection \<open>Claim C2: the crossfade\<close>

lemma fade_opacity:
  "opacity ((foldl (fadeChild f) h cs) r) = (if SpriteRef r \<in> set cs then f else opacity (h r))"
proof (induction cs arbitrary: h)
  case Nil
  then show ?case by simp
next
  case (Cons c cs)
  show ?case by (cases c) (simp_all add: Cons.IH)
qed

lemma setRulerGroupOpacity_fades:
  assumes "rulerGroup st \<noteq> None"
  shows "overlayOpacity (setRulerGroupOpacity f st) f"
proof -
  from assms obtain g where g: "rulerGroup st = Some g" by auto
  have "childOpacityIs (foldl (fadeChild f) (sprites st) (children g)) f c"
    if "c \<in> set (children g)" for c
  proof (cases c)
    case (SpriteRef r)
    with that show ?thesis by (simp add: fade_opacity)
  qed simp
  then show ?thesis
    by (simp add: overlayOpacity_def setRulerGroupOpacity_def g rulerLineOpacity_def list_all_iff)
qed

lemma overlayOpacity_cong:
  assumes "rulerGroup st' = rulerGroup st" "sprites st' = sprites st"
    "currentIsDark st' = currentIsDark st"
  shows "overlayOpacity st' f = overlayOpacity st f"
  by (simp add: overlayOpacity_def rulerLineOpacity_def assms split: option.splits)

text \<open>The three kinds of frame of a transition that fades a ruler.\<close>

lemma animate_fade_out:
  assumes "hasRuler s" "rawProgress s now < 0.5"
  shows "animate s now st =
    Some (snd (requestAnimationFrame (DirectionFrame (s\<lparr>sessionCamera := frameCamera s now\<rparr>))
            (setRulerGroupOpacity (1 - rawProgress s now * 2) (setCamera (frameCamera s now) st))))"
  using assms by (simp add: animate_unfold crossfade_def)

lemma animate_fade_in:
  assumes "hasRuler s" "\<not> rawProgress s now < 0.5" "rulerRebuilt s"
  shows "animate s now st =
    Some (if rawProgress s now < 1
          then snd (requestAnimationFrame (DirectionFrame (s\<lparr>sessionCamera := frameCamera s now\<rparr>))
                 (setRulerGroupOpacity ((rawProgress s now - 0.5) * 2)
                    (setCamera (frameCamera s now) st)))
          else setRulerGroupOpacity 1
                 (callViewer AdjustClippingPlanesToSphere
                    (setRulerGroupOpacity ((rawProgress s now - 0.5) * 2)
                       (setCamera (frameCamera s now) st))))"
  using assms by (simp add: animate_unfold crossfade_def finishRuler_def Let_def)

lemma animate_rebuild:
  assumes "hasRuler s" "\<not> rawProgress s now < 0.5" "\<not> rulerRebuilt s"
  shows "\<exists>y. setScaleRuler True (currentRulerMeshIndex st)
               ((setCamera (frameCamera s now) st)\<lparr>currentViewDirection := direction s\<rparr>) = Some y
    \<and> animate s now st =
        Some (if rawProgress s now < 1
          then snd (requestAnimationFrame
                 (DirectionFrame (s\<lparr>sessionCamera := frameCamera s now, rulerRebuilt := True\<rparr>))
                 (setRulerGroupOpacity ((rawProgress s now - 0.5) * 2) (setRulerGroupOpacity 0 y)))
          else setRulerGroupOpacity 1
                 (callViewer AdjustClippingPlanesToSphere
                    (setRulerGroupOpacity ((rawProgress s now - 0.5) * 2)
                       (setRulerGroupOpacity 0 y))))"
proof -
  obtain y where y: "setScaleRuler True (currentRulerMeshIndex st)
               ((setCamera (frameCamera s now) st)\<lparr>currentViewDirection := direction s\<rparr>) = Some y"
    using setScaleRuler_returns by blast
  have i: "currentRulerMeshIndex (setCamera (frameCamera s now) st) = currentRulerMeshIndex st"
    by (simp add: setCamera_def callViewer_def)
  show ?thesis
    using assms y by (simp add: animate_unfold crossfade_def finishRuler_def Let_def i)
qed

lemma overlayOpacity_requestAnimationFrame [simp]:
  "overlayOpacity (snd (requestAnimationFrame cb st)) f = overlayOpacity st f"
  by (rule overlayOpacity_cong) (simp_all add: requestAnimationFrame_def)

lemma overlayOpacity_callViewer [simp]:
  "overlayOpacity (callViewer c st) f = overlayOpacity st f"
  by (rule overlayOpacity_cong) (simp_all add: callViewer_def)

lemma fadeFactor_out: "raw < 0.5 \<Longrightarrow> fadeFactor raw = 1 - raw * 2"
  by (simp add: fadeFactor_def)

lemma fadeFactor_in: "\<not> raw < 0.5 \<Longrightarrow> fadeFactor raw = (raw - 0.5) * 2"
  by (simp add: fadeFactor_def)

lemma overlayOpacity_group: "overlayOpacity st f \<Longrightarrow> rulerGroup st \<noteq> None"
  by (auto simp: overlayOpacity_def split: option.splits)

lemma rulerBuilt_cong:
  assumes "rulerGroup st' = rulerGroup st" "rulerLabelSprites st' = rulerLabelSprites st"
  shows "rulerBuilt st' = rulerBuilt st"
  by (simp add: rulerBuilt_def assms split: option.splits)

lemma rulerBuilt_requestAnimationFrame [simp]:
  "rulerBuilt (snd (requestAnimationFrame cb st)) = rulerBuilt st"
  by (rule rulerBuilt_cong) (simp_all add: requestAnimationFrame_def)

lemma rulerBuilt_callViewer [simp]: "rulerBuilt (callViewer c st) = rulerBuilt st"
  by (rule rulerBuilt_cong) (simp_all add: callViewer_def)

lemma rulerBuilt_setCamera [simp]: "rulerBuilt (setCamera c st) = rulerBuilt st"
  by (rule rulerBuilt_cong) (simp_all add: setCamera_def callViewer_def)

lemma rulerBuilt_updates [simp]:
  "rulerBuilt (st\<lparr>pending := p\<rparr>) = rulerBuilt st"
  "rulerBuilt (st\<lparr>nextHandle := n\<rparr>) = rulerBuilt st"
  "rulerBuilt (st\<lparr>viewerCamera := c\<rparr>) = rulerBuilt st"
  "rulerBuilt (st\<lparr>viewerCalls := v\<rparr>) = rulerBuilt st"
  by (rule rulerBuilt_cong, simp, simp)+

lemma rulerBuilt_setRulerGroupOpacity [simp]:
  "rulerBuilt (setRulerGroupOpacity f st) = rulerBuilt st"
  by (simp add: rulerBuilt_def isChild_def setRulerGroupOpacity_def split: option.splits)

lemma rulerBuilt_rebuild:
  assumes "threeObject st = Some obj" "setScaleRuler True i st = Some st'"
  shows "rulerBuilt st'"
  using setScaleRuler_rebuild(2)[OF assms] by (auto simp: rulerBuilt_def isChild_def)

lemma midTransitionI:
  assumes "threeObject st \<noteq> None" "\<not> justLoaded st"
    "rebuilds st = n0 + rebuildsDue (rawProgress s0 t)"
    "\<not> rawProgress s0 t < 0.5 \<Longrightarrow> currentViewDirection st = direction s0"
    "rulerBuilt st"
    "overlayOpacity st (fadeFactor (rawProgress s0 t))"
    "rawProgress s0 t < 1 \<Longrightarrow>
       pending st = [(h, DirectionFrame (s0\<lparr>sessionCamera := c,
                                              rulerRebuilt := \<not> rawProgress s0 t < 0.5\<rparr>))]"
    "\<not> rawProgress s0 t < 1 \<Longrightarrow> pending st = []"
  shows "midTransition s0 n0 t st"
  unfolding midTransition_def using assms by auto

lemmas frameFields = requestAnimationFrame_def setRulerGroupOpacity_fields setCamera_def
  callViewer_def rebuilds_def rebuildsDue_def

lemma rawProgress_session [simp]:
  "rawProgress (s\<lparr>sessionCamera := c, rulerRebuilt := b\<rparr>) now = rawProgress s now"
  by (simp add: rawProgress_def)

lemma rawProgress_mono: "t \<le> now \<Longrightarrow> rawProgress s t \<le> rawProgress s now"
  by (simp add: rawProgress_def min_def)

lemma rawProgress_le_1: "rawProgress s now \<le> 1"
  by (simp add: rawProgress_def)

lemma frame_alive:
  fixes s0 :: session and c :: camera and b :: bool
  defines "s \<equiv> s0\<lparr>sessionCamera := c, rulerRebuilt := b\<rparr>"
  assumes ruler: "hasRuler s0" and obj: "threeObject st \<noteq> None" and nj: "\<not> justLoaded st"
    and grp: "rulerGroup st \<noteq> None" and pend: "pending st = [(h, DirectionFrame s)]"
    and cnt: "rebuilds st = n0 + (if b then 1 else 0)"
    and dir: "b \<longrightarrow> currentViewDirection st = direction s0"
    and blt: "rulerBuilt st"
    and mono: "b \<longrightarrow> \<not> rawProgress s0 now < 0.5"
  shows "\<exists>st'. runFrame now st = Some st' \<and> midTransition s0 n0 now st'"
proof -
  let ?raw = "rawProgress s0 now"
  let ?st = "st\<lparr>pending := []\<rparr>"
  let ?cam = "frameCamera s now"
  have raw: "rawProgress s now = ?raw" by (simp add: s_def)
  have hs: "hasRuler s" using ruler by (simp add: s_def)
  have rf: "runFrame now st = animate s now ?st"
    using runFrame_single[OF pend] by simp
  consider (out) "?raw < 0.5" | (again) "\<not> ?raw < 0.5" "b" | (build) "\<not> ?raw < 0.5" "\<not> b"
    by blast
  then show ?thesis
  proof cases
    case out
    then have nb: "\<not> b" using mono by blast
    let ?X = "setRulerGroupOpacity (1 - ?raw * 2) (setCamera ?cam ?st)"
    have a: "animate s now ?st
        = Some (snd (requestAnimationFrame (DirectionFrame (s\<lparr>sessionCamera := ?cam\<rparr>)) ?X))"
      using animate_fade_out[OF hs, of now ?st] out by (simp add: raw)
    have g: "rulerGroup (setCamera ?cam ?st) \<noteq> None"
      using grp by (simp add: setCamera_def callViewer_def)
    have op: "overlayOpacity ?X (1 - ?raw * 2)" by (rule setRulerGroupOpacity_fades[OF g])
    have op': "overlayOpacity (snd (requestAnimationFrame (DirectionFrame (s\<lparr>sessionCamera := ?cam\<rparr>)) ?X))
        (fadeFactor ?raw)"
      using op by (simp only: overlayOpacity_requestAnimationFrame fadeFactor_out[OF out])
    have lt1: "?raw < 1" using out by simp
    show ?thesis
      unfolding rf a
      by (rule exI, rule conjI[OF refl], rule midTransitionI[where h = "nextHandle st" and c = ?cam])
        (use obj nj cnt nb out lt1 op' blt in \<open>simp_all add: frameFields s_def\<close>)
  next
    case again
    let ?X = "setRulerGroupOpacity ((?raw - 0.5) * 2) (setCamera ?cam ?st)"
    have rb: "rulerRebuilt s" using again by (simp add: s_def)
    have a: "animate s now ?st
        = Some (if ?raw < 1
            then snd (requestAnimationFrame (DirectionFrame (s\<lparr>sessionCamera := ?cam\<rparr>)) ?X)
            else setRulerGroupOpacity 1 (callViewer AdjustClippingPlanesToSphere ?X))"
      using animate_fade_in[OF hs _ rb, of now ?st] again by (simp add: raw)
    have g: "rulerGroup (setCamera ?cam ?st) \<noteq> None"
      using grp by (simp add: setCamera_def callViewer_def)
    have op: "overlayOpacity ?X ((?raw - 0.5) * 2)" by (rule setRulerGroupOpacity_fades[OF g])
    show ?thesis
    proof (cases "?raw < 1")
      case True
      have op': "overlayOpacity (snd (requestAnimationFrame (DirectionFrame (s\<lparr>sessionCamera := ?cam\<rparr>)) ?X))
          (fadeFactor ?raw)"
        using op by (simp only: overlayOpacity_requestAnimationFrame fadeFactor_in[OF again(1)])
      show ?thesis
        unfolding rf a
        by (rule exI, rule conjI[OF refl], rule midTransitionI[where h = "nextHandle st" and c = ?cam])
          (use obj nj cnt again True op' dir blt in \<open>simp_all add: frameFields s_def\<close>)
    next
      case False
      then have one: "?raw = 1" using rawProgress_le_1[of s0 now] by simp
      have g': "rulerGroup (callViewer AdjustClippingPlanesToSphere ?X) \<noteq> None"
        using g by (simp add: callViewer_def setRulerGroupOpacity_fields)
      have op': "overlayOpacity (setRulerGroupOpacity 1 (callViewer AdjustClippingPlanesToSphere ?X))
          (fadeFactor ?raw)"
        using setRulerGroupOpacity_fades[OF g', of 1] by (simp add: fadeFactor_def one)
      show ?thesis
        unfolding rf a
        by (rule exI, rule conjI[OF refl], rule midTransitionI[where h = 0 and c = ?cam])
          (use obj nj cnt again False op' dir blt in \<open>simp_all add: frameFields s_def\<close>)
    qed
  next
    case build
    let ?in = "(setCamera ?cam ?st)\<lparr>currentViewDirection := direction s\<rparr>"
    have nrb: "\<not> rulerRebuilt s" using build by (simp add: s_def)
    from animate_rebuild[OF hs _ nrb, of now ?st] build obtain y where
      y: "setScaleRuler True (currentRulerMeshIndex ?st) ?in = Some y"
      and a: "animate s now ?st
        = Some (if ?raw < 1
          then snd (requestAnimationFrame
                 (DirectionFrame (s\<lparr>sessionCamera := ?cam, rulerRebuilt := True\<rparr>))
                 (setRulerGroupOpacity ((?raw - 0.5) * 2) (setRulerGroupOpacity 0 y)))
          else setRulerGroupOpacity 1
                 (callViewer AdjustClippingPlanesToSphere
                    (setRulerGroupOpacity ((?raw - 0.5) * 2) (setRulerGroupOpacity 0 y))))"
      by (auto simp: raw)
    from obj obtain ob where ob: "threeObject ?in = Some ob"
      by (auto simp: setCamera_def callViewer_def)
    note rbl = setScaleRuler_rebuild[OF ob y]
    have y_obj: "threeObject y \<noteq> None" and y_pend: "pending y = []" "nextHandle y = nextHandle st"
      using rbl(1) obj by (simp_all add: sameSchedule_def setCamera_def callViewer_def)
    have y_grp: "rulerGroup y \<noteq> None" using rbl(2) by auto
    have y_cnt: "rebuilds y = n0 + 1"
      using rbl(3) cnt build by (simp add: rebuilds_def setCamera_def callViewer_def)
    have y_nj: "\<not> justLoaded y" using rbl(4) by simp
    have y_blt: "rulerBuilt y" by (rule rulerBuilt_rebuild[OF ob y])
    have y_dir: "currentViewDirection y = direction s0"
      using rbl(7) nj by (simp add: prepared_fields setCamera_def callViewer_def s_def)
    let ?Y = "setRulerGroupOpacity ((?raw - 0.5) * 2) (setRulerGroupOpacity 0 y)"
    have g0: "rulerGroup (setRulerGroupOpacity 0 y) \<noteq> None"
      using y_grp by (simp add: setRulerGroupOpacity_fields)
    have op: "overlayOpacity ?Y ((?raw - 0.5) * 2)" by (rule setRulerGroupOpacity_fades[OF g0])
    show ?thesis
    proof (cases "?raw < 1")
      case True
      have op': "overlayOpacity (snd (requestAnimationFrame
            (DirectionFrame (s\<lparr>sessionCamera := ?cam, rulerRebuilt := True\<rparr>)) ?Y)) (fadeFactor ?raw)"
        using op by (simp only: overlayOpacity_requestAnimationFrame fadeFactor_in[OF build(1)])
      show ?thesis
        unfolding rf a
        by (rule exI, rule conjI[OF refl], rule midTransitionI[where h = "nextHandle st" and c = ?cam])
          (use y_obj y_nj y_cnt y_dir y_blt y_pend build True op' in \<open>simp_all add: frameFields s_def\<close>)
    next
      case False
      then have one: "?raw = 1" using rawProgress_le_1[of s0 now] by simp
      have g': "rulerGroup (callViewer AdjustClippingPlanesToSphere ?Y) \<noteq> None"
        using g0 by (simp add: callViewer_def setRulerGroupOpacity_fields)
      have op': "overlayOpacity (setRulerGroupOpacity 1 (callViewer AdjustClippingPlanesToSphere ?Y))
          (fadeFactor ?raw)"
        using setRulerGroupOpacity_fades[OF g', of 1] by (simp add: fadeFactor_def one)
      show ?thesis
        unfolding rf a
        by (rule exI, rule conjI[OF refl], rule midTransitionI[where h = 0 and c = ?cam])
          (use y_obj y_nj y_cnt y_dir y_blt y_pend build False op' in \<open>simp_all add: frameFields s_def\<close>)
    qed
  qed
qed

lemma runFrame_idle: "pending st = [] \<Longrightarrow> runFrame now st = Some st"
  by (simp add: runFrame_def)

lemma midTransition_next:
  assumes m: "midTransition s0 n0 t st" and ruler: "hasRuler s0" and le: "t \<le> now"
  shows "\<exists>st'. runFrame now st = Some st' \<and> midTransition s0 n0 now st'"
proof (cases "rawProgress s0 t < 1")
  case True
  with m obtain h c where p: "pending st =
      [(h, DirectionFrame (s0\<lparr>sessionCamera := c, rulerRebuilt := \<not> rawProgress s0 t < 0.5\<rparr>))]"
    by (auto simp: midTransition_def)
  from m have f: "threeObject st \<noteq> None" "\<not> justLoaded st" "rulerGroup st \<noteq> None"
    "rebuilds st = n0 + (if \<not> rawProgress s0 t < 0.5 then 1 else 0)"
    "\<not> rawProgress s0 t < 0.5 \<longrightarrow> currentViewDirection st = direction s0"
    "rulerBuilt st"
    by (auto simp: midTransition_def rebuildsDue_def dest: overlayOpacity_group)
  have mono: "\<not> rawProgress s0 t < 0.5 \<longrightarrow> \<not> rawProgress s0 now < 0.5"
    using rawProgress_mono[OF le, of s0] by auto
  from frame_alive[OF ruler f(1,2,3) p f(4,5,6) mono] show ?thesis .
next
  case False
  then have one: "rawProgress s0 t = 1" using rawProgress_le_1[of s0 t] by simp
  then have one': "rawProgress s0 now = 1"
    using rawProgress_mono[OF le, of s0] rawProgress_le_1[of s0 now] by simp
  from m False have "pending st = []" by (simp add: midTransition_def)
  then have "runFrame now st = Some st" by (rule runFrame_idle)
  moreover from m have "midTransition s0 n0 now st"
    by (simp add: midTransition_def one one')
  ultimately show ?thesis by blast
qed

lemma midTransition_run:
  assumes "midTransition s0 n0 t st" "hasRuler s0" "sorted (t # nows)"
  shows "\<exists>st'. run (map Frame nows) st = Some st' \<and> midTransition s0 n0 (last (t # nows)) st'"
  using assms
proof (induction nows arbitrary: t st)
  case Nil
  then show ?case by simp
next
  case (Cons now nows)
  from Cons.prems(3) have le: "t \<le> now" and srt: "sorted (now # nows)" by simp_all
  from midTransition_next[OF Cons.prems(1,2) le] obtain st1 where
    st1: "runFrame now st = Some st1" "midTransition s0 n0 now st1" by blast
  from Cons.IH[OF st1(2) Cons.prems(2) srt] obtain st' where
    "run (map Frame nows) st1 = Some st'" "midTransition s0 n0 (last (now # nows)) st'" by blast
  then show ?case using st1(1) by simp
qed

lemma transition_first_frame:
  assumes tok: "directionOf tok = Some d"
    and built: "rulerBuilt st" and obj: "threeObject st \<noteq> None"
    and nj: "\<not> justLoaded st" and quiet: "pending st = []"
  shows "\<exists>st'. runFrame now (setCameraDirection tok T st) = Some st'
    \<and> midTransition (directionSession d T st) (rebuilds st) now st'"
proof -
  let ?s0 = "directionSession d T st"
  let ?st1 = "setCameraDirection tok T st"
  from built have ruler: "rulerGroup st \<noteq> None"
    by (auto simp: rulerBuilt_def split: option.splits)
  have s0: "?s0\<lparr>sessionCamera := viewerCamera st, rulerRebuilt := False\<rparr> = ?s0"
    by (simp add: directionSession_def Let_def split: prod.splits)
  have p: "pending ?st1
      = [(nextHandle st, DirectionFrame (?s0\<lparr>sessionCamera := viewerCamera st, rulerRebuilt := False\<rparr>))]"
    by (simp add: setCameraDirection_registers[OF tok] quiet s0)
  have h: "hasRuler ?s0" using ruler by (simp add: directionSession_fields)
  have f: "threeObject ?st1 \<noteq> None" "\<not> justLoaded ?st1" "rulerGroup ?st1 \<noteq> None"
    "rebuilds ?st1 = rebuilds st + (if False then 1 else 0)"
    "False \<longrightarrow> currentViewDirection ?st1 = direction ?s0"
    "rulerBuilt ?st1"
    "False \<longrightarrow> \<not> rawProgress ?s0 now < 0.5"
    using ruler obj nj built by (simp_all add: setCameraDirection_registers[OF tok] rebuilds_def)
  from frame_alive[OF h f(1,2,3) p f(4,5,6,7)] show ?thesis .
qed

lemma built_label_opacity:
  assumes "rulerBuilt st" "overlayOpacity st f"
  shows "map_option (\<lambda>r. opacity (sprites st r)) (spriteX (rulerLabelSprites st)) = Some f"
proof -
  from assms(1) obtain g r where g: "rulerGroup st = Some g"
    and r: "spriteX (rulerLabelSprites st) = Some r" "SpriteRef r \<in> set (children g)"
    by (auto simp: rulerBuilt_def isChild_def split: option.splits)
  from assms(2) g have "list_all (childOpacityIs (sprites st) f) (children g)"
    by (simp add: overlayOpacity_def)
  with r(2) have "childOpacityIs (sprites st) f (SpriteRef r)"
    unfolding list_all_iff by (rule bspec[rotated])
  then show ?thesis by (simp add: r(1))
qed

text \<open>
  The frame in which a transition rebuilds the overlay, when it is not the last one: the
  overlay is built once more, set to opacity 0 and then to the fade-in factor, and the
  callback is registered again.
\<close>

lemma rebuild_frame:
  assumes h: "hasRuler s" and nr: "\<not> rulerRebuilt s" and half: "\<not> rawProgress s now < 0.5"
    and lt: "rawProgress s now < 1" and obj: "threeObject st = Some obj"
  shows "\<exists>st'. animate s now st = Some st' \<and> rebuilds st' = rebuilds st + 1 \<and> rulerBuilt st'
    \<and> overlayOpacity st' ((rawProgress s now - 0.5) * 2)
    \<and> pending st' = pending st @ [(nextHandle st,
          DirectionFrame (s\<lparr>sessionCamera := frameCamera s now, rulerRebuilt := True\<rparr>))]
    \<and> nextHandle st' = Suc (nextHandle st) \<and> threeObject st' = Some obj
    \<and> currentViewDirection st' = (if justLoaded st then Front else direction s)"
proof -
  let ?cam = "frameCamera s now" and ?raw = "rawProgress s now"
  let ?in = "(setCamera ?cam st)\<lparr>currentViewDirection := direction s\<rparr>"
  from animate_rebuild[OF h half nr, of st] lt obtain y where
    y: "setScaleRuler True (currentRulerMeshIndex st) ?in = Some y"
    and a: "animate s now st
      = Some (snd (requestAnimationFrame
                 (DirectionFrame (s\<lparr>sessionCamera := ?cam, rulerRebuilt := True\<rparr>))
                 (setRulerGroupOpacity ((?raw - 0.5) * 2) (setRulerGroupOpacity 0 y))))"
    by auto
  have ob: "threeObject ?in = Some obj" using obj by (simp add: setCamera_def callViewer_def)
  note rbl = setScaleRuler_rebuild[OF ob y]
  let ?Y = "setRulerGroupOpacity ((?raw - 0.5) * 2) (setRulerGroupOpacity 0 y)"
  let ?Z = "snd (requestAnimationFrame
                 (DirectionFrame (s\<lparr>sessionCamera := ?cam, rulerRebuilt := True\<rparr>)) ?Y)"
  have y_grp: "rulerGroup (setRulerGroupOpacity 0 y) \<noteq> None"
    using rbl(2) by (auto simp: setRulerGroupOpacity_fields)
  have op: "overlayOpacity ?Z ((?raw - 0.5) * 2)"
    using setRulerGroupOpacity_fades[OF y_grp, of "(?raw - 0.5) * 2"] by simp
  have bl: "rulerBuilt ?Z" using rulerBuilt_rebuild[OF ob y] by simp
  have cnt: "rebuilds ?Z = rebuilds st + 1"
    using rbl(3) by (simp add: frameFields)
  have sch: "pending ?Z = pending st @ [(nextHandle st,
          DirectionFrame (s\<lparr>sessionCamera := ?cam, rulerRebuilt := True\<rparr>))]"
    "nextHandle ?Z = Suc (nextHandle st)" "threeObject ?Z = Some obj"
    using rbl(1) obj by (simp_all add: sameSchedule_def frameFields)
  have dir: "currentViewDirection ?Z = (if justLoaded st then Front else direction s)"
    using rbl(7) by (simp add: prepared_fields frameFields)
  show ?thesis unfolding a using op bl cnt sch dir by blast
qed

definition rulerShown :: state where
  "rulerShown =
    the (run [LoadFinishes (boxObject unitBox) 2, CallSetScaleRuler True None] idleState)"

lemma rulerShown_fields:
  "rulerBuilt rulerShown" "threeObject rulerShown = Some (boxObject unitBox)"
  "\<not> justLoaded rulerShown" "pending rulerShown = []" "nextHandle rulerShown = 0"
proof -
  let ?obj = "boxObject unitBox"
  have m: "meshBoxes ?obj \<noteq> []" by (simp add: boxObject_def)
  note of = onModelFinished_fields[OF m]
  let ?st1 = "onModelFinished ?obj 2 idleState"
  obtain st2 where st2: "setScaleRuler True None ?st1 = Some st2"
    using setScaleRuler_returns by blast
  then have rs: "rulerShown = st2" by (simp add: rulerShown_def)
  have o1: "threeObject ?st1 = Some ?obj" by (simp add: of)
  note rb = setScaleRuler_rebuild[OF o1 st2]
  show "rulerBuilt rulerShown" unfolding rs by (rule rulerBuilt_rebuild[OF o1 st2])
  show "threeObject rulerShown = Some (boxObject unitBox)"
    using rb(1) o1 by (simp add: rs sameSchedule_def)
  show "\<not> justLoaded rulerShown" using rb(4) by (simp add: rs)
  show "pending rulerShown = []" "nextHandle rulerShown = 0"
    using rb(1) by (simp_all add: rs sameSchedule_def of idleState_def)
qed

text \<open>
  Claim C2, as stated, speaks of any directed transition with an active ruler overlay. It
  fails when transitions overlap. With the ruler shown, start a transition to the top at
  time 0 and one to the right at time 100. In the frame at time 300 the first transition is
  at progress 3/4, where the claim puts the opacity at 1/2 after one rebuild. Its callback
  rebuilds the overlay and sets the opacity to 1/2; then the callback of the second
  transition, at progress 1/2, rebuilds the overlay again and leaves it at opacity 0.
\<close>

definition overlapping :: state where
  "overlapping = setCameraDirection ''right'' 100 (setCameraDirection ''top'' 0 rulerShown)"




subsection \<open>Claim C10: auto-rotate\<close>

lemma besideAutoRotate_inv:
  assumes "besideAutoRotate st st'" "autoRotateInv st"
  shows "autoRotateInv st'" "autoTicks st' = autoTicks st"
proof -
  from assms(1) consider (same) "autoRotateId st' = autoRotateId st" "pending st' = pending st"
      "nextHandle st' = nextHandle st"
    | (more) cb where "autoRotateId st' = autoRotateId st" "\<not> isAutoTick cb"
      "pending st' = pending st @ [(nextHandle st, cb)]" "nextHandle st' = Suc (nextHandle st)"
    by (auto simp: besideAutoRotate_def)
  then have "autoRotateInv st' \<and> autoTicks st' = autoTicks st"
  proof cases
    case same
    with assms(2) show ?thesis
      by (simp add: autoRotateInv_def autoTicks_def split: option.splits)
  next
    case more
    have fresh: "nextHandle st \<notin> fst ` set (pending st)"
      using assms(2) by (auto simp: autoRotateInv_def list_all_iff)
    have lt: "list_all (\<lambda>p. fst p < Suc (nextHandle st)) (pending st)"
      using assms(2) by (auto simp: autoRotateInv_def list_all_iff less_Suc_eq)
    show ?thesis
      using assms(2) more fresh lt
      by (simp add: autoRotateInv_def autoTicks_def split: option.splits)
  qed
  then show "autoRotateInv st'" "autoTicks st' = autoTicks st" by simp_all
qed

lemma sameSchedule_beside: "sameSchedule st st' \<Longrightarrow> besideAutoRotate st st'"
  by (simp add: sameSchedule_def besideAutoRotate_def)

lemma animate_beside:
  assumes "animate s now st = Some st'"
  shows "besideAutoRotate st st'"
proof -
  let ?cam = "frameCamera s now"
  from assms obtain s2 st2 where
    c: "crossfade (direction s) (rawProgress s now) (s\<lparr>sessionCamera := ?cam\<rparr>) (setCamera ?cam st)
          = Some (s2, st2)"
    and r: "(if rawProgress s now < 1 then Some (snd (requestAnimationFrame (DirectionFrame s2) st2))
             else finishRuler (direction s2) s2 (callViewer AdjustClippingPlanesToSphere st2)) = Some st'"
    by (auto simp: animate_unfold bind_eq_Some_conv)
  from crossfade_sameSchedule[OF c] have a: "sameSchedule st st2"
    by (simp add: sameSchedule_def setCamera_def callViewer_def)
  show ?thesis
  proof (cases "rawProgress s now < 1")
    case True
    with r a show ?thesis
      by (auto simp: besideAutoRotate_def sameSchedule_def requestAnimationFrame_def)
  next
    case False
    with r have "finishRuler (direction s2) s2 (callViewer AdjustClippingPlanesToSphere st2) = Some st'"
      by simp
    from finishRuler_sameSchedule[OF this] a show ?thesis
      by (simp add: besideAutoRotate_def sameSchedule_def callViewer_def)
  qed
qed

lemma animateReset_beside:
  assumes "animateReset s now st = Some st'"
  shows "besideAutoRotate st st'"
proof -
  let ?cam = "frameCamera s now"
  from assms obtain s2 st2 where
    c: "crossfade Front (rawProgress s now) (s\<lparr>sessionCamera := ?cam\<rparr>) (setCamera ?cam st)
          = Some (s2, st2)"
    and r: "(if rawProgress s now < 1 then Some (snd (requestAnimationFrame (ResetFrame s2) st2))
             else (case getBoundingSphere st2 of
                 None \<Rightarrow> Some (raise TypeError st2)
               | Some boundingSphere \<Rightarrow>
                   finishRuler Front s2
                     (callViewer FitSphereToWindow (callViewer AdjustClippingPlanesToSphere st2))))
            = Some st'"
    by (auto simp: animateReset_unfold bind_eq_Some_conv)
  from crossfade_sameSchedule[OF c] have a: "sameSchedule st st2"
    by (simp add: sameSchedule_def setCamera_def callViewer_def)
  show ?thesis
  proof (cases "rawProgress s now < 1")
    case True
    with r a show ?thesis
      by (auto simp: besideAutoRotate_def sameSchedule_def requestAnimationFrame_def)
  next
    case False
    show ?thesis
    proof (cases "getBoundingSphere st2")
      case None
      with r False have "st' = raise TypeError st2" by simp
      with a show ?thesis
        by (simp add: besideAutoRotate_def sameSchedule_def raise_fields)
    next
      case (Some b)
      with r False have "finishRuler Front s2
          (callViewer FitSphereToWindow (callViewer AdjustClippingPlanesToSphere st2)) = Some st'"
        by simp
      from finishRuler_sameSchedule[OF this] a show ?thesis
        by (simp add: besideAutoRotate_def sameSchedule_def callViewer_def)
    qed
  qed
qed

lemma onModelFinished_schedule:
  "pending (onModelFinished obj fit st) = pending st"
  "nextHandle (onModelFinished obj fit st) = nextHandle st"
  "autoRotateId (onModelFinished obj fit st) = autoRotateId st"
  by (simp_all add: onModelFinished_def Let_def setCamera_def callViewer_def raise_def
      fitSphereToWindow_def split: option.splits prod.splits)

text \<open>Taking a callback off the registrations for its turn in a frame.\<close>

lemma cancel_other:
  assumes inv: "autoRotateInv st" and m: "map_of (pending st) h = Some cb" and n: "\<not> isAutoTick cb"
  shows "autoRotateInv (cancelAnimationFrame h st)"
    "autoTicks (cancelAnimationFrame h st) = autoTicks st"
proof -
  have d: "distinct (map fst (pending st))" using inv by (simp add: autoRotateInv_def)
  have mem: "(h, cb) \<in> set (pending st)" using m by (rule map_of_SomeD)
  have other: "fst p \<noteq> h" if "p \<in> set (pending st)" "isAutoTick (snd p)" for p
  proof
    assume "fst p = h"
    with that(1) mem d have "p = (h, cb)"
      by (metis eq_key_imp_eq_value prod.collapse)
    with that(2) n show False by simp
  qed
  have t: "autoTicks (cancelAnimationFrame h st) = autoTicks st"
    unfolding autoTicks_def cancelAnimationFrame_def
    by (simp, rule filter_cong) (auto dest: other)
  show "autoTicks (cancelAnimationFrame h st) = autoTicks st" by (rule t)
  have "distinct (map fst (filter (\<lambda>p. fst p \<noteq> h) (pending st)))"
    using d by (simp add: distinct_map_filter)
  moreover have "list_all (\<lambda>p. fst p < nextHandle st) (filter (\<lambda>p. fst p \<noteq> h) (pending st))"
    using inv by (auto simp: autoRotateInv_def list_all_iff)
  ultimately show "autoRotateInv (cancelAnimationFrame h st)"
    using inv t unfolding autoRotateInv_def
    by (simp add: cancelAnimationFrame_def split: option.splits)
qed

lemma cancel_tick:
  assumes inv: "autoRotateInv st" and m: "map_of (pending st) h = Some (AutoRotateTick a)"
  shows "autoTicks st = [(h, AutoRotateTick a)]" "autoRotateId st = Some h"
    "autoTicks (cancelAnimationFrame h st) = []"
    "distinct (map fst (pending (cancelAnimationFrame h st)))"
    "list_all (\<lambda>p. fst p < nextHandle st) (pending (cancelAnimationFrame h st))"
proof -
  have d: "distinct (map fst (pending st))" using inv by (simp add: autoRotateInv_def)
  have mem: "(h, AutoRotateTick a) \<in> set (pending st)" using m by (rule map_of_SomeD)
  then have "(h, AutoRotateTick a) \<in> set (autoTicks st)" by (simp add: autoTicks_def)
  with inv show t: "autoTicks st = [(h, AutoRotateTick a)]" and "autoRotateId st = Some h"
    by (auto simp: autoRotateInv_def split: option.splits)
  have "filter (\<lambda>p. fst p \<noteq> h) (autoTicks st) = []" by (simp add: t)
  then show "autoTicks (cancelAnimationFrame h st) = []"
    by (simp add: autoTicks_def cancelAnimationFrame_def conj_commute)
  show "distinct (map fst (pending (cancelAnimationFrame h st)))"
    using d by (simp add: cancelAnimationFrame_def distinct_map_filter)
  show "list_all (\<lambda>p. fst p < nextHandle st) (pending (cancelAnimationFrame h st))"
    using inv by (auto simp: autoRotateInv_def cancelAnimationFrame_def list_all_iff)
qed

lemma tick_fields:
  "pending (tick a now st)
     = pending st @ [(nextHandle st, AutoRotateTick (a\<lparr>elapsed := elapsed a
          + (now - (case autoRotatePrev st of None \<Rightarrow> 0 | Some p \<Rightarrow> p)) / 1000\<rparr>))]"
  "nextHandle (tick a now st) = Suc (nextHandle st)"
  "autoRotateId (tick a now st) = Some (nextHandle st)"
  by (simp_all add: tick_def Let_def requestAnimationFrame_def callViewer_def)

text \<open>A step keeps the invariant, and the speed and tilt of a registered tick.\<close>

definition keepsLoop :: "state \<Rightarrow> state \<Rightarrow> bool" where
  "keepsLoop st st' =
    (autoRotateInv st' \<and> (autoParams st \<noteq> None \<longrightarrow> autoParams st' = autoParams st))"

lemma beside_keepsLoop:
  "besideAutoRotate st st' \<Longrightarrow> autoRotateInv st \<Longrightarrow> keepsLoop st st'"
  using besideAutoRotate_inv[of st st'] by (simp add: keepsLoop_def autoParams_def)

lemma keepsLoop_trans: "keepsLoop a b \<Longrightarrow> keepsLoop b c \<Longrightarrow> keepsLoop a c"
  by (auto simp: keepsLoop_def)

lemma runHandle_keepsLoop:
  assumes inv: "autoRotateInv st" and run: "runHandle now h st = Some st'"
  shows "keepsLoop st st'"
proof (cases "map_of (pending st) h")
  case None
  with run inv show ?thesis by (simp add: runHandle_def keepsLoop_def)
next
  case (Some cb)
  with run have iv: "invoke cb now (cancelAnimationFrame h st) = Some st'"
    by (simp add: runHandle_def)
  show ?thesis
  proof (cases cb)
    case (AutoRotateTick a)
    note c = cancel_tick[OF inv Some[unfolded AutoRotateTick]]
    let ?c = "cancelAnimationFrame h st"
    have nh: "nextHandle ?c = nextHandle st" by (simp add: cancelAnimationFrame_def)
    from iv have st': "st' = tick a now ?c" by (simp add: AutoRotateTick)
    have fresh: "nextHandle st \<notin> fst ` set (pending ?c)"
      using c(5) by (auto simp: list_all_iff)
    have lt: "list_all (\<lambda>p. fst p < Suc (nextHandle st)) (pending ?c)"
      using c(5) by (auto simp: list_all_iff less_Suc_eq)
    have t': "autoTicks st' = [(nextHandle st, AutoRotateTick (a\<lparr>elapsed := elapsed a
          + (now - (case autoRotatePrev ?c of None \<Rightarrow> 0 | Some p \<Rightarrow> p)) / 1000\<rparr>))]"
      using c(3) by (simp add: st' autoTicks_def tick_fields nh)
    have "autoRotateInv st'"
      unfolding autoRotateInv_def using c(4) fresh lt t'
      by (simp add: st' tick_fields nh)
    moreover have "autoParams st' = autoParams st"
      by (simp add: autoParams_def t' c(1))
    ultimately show ?thesis by (simp add: keepsLoop_def)
  next
    case (DirectionFrame s)
    note c = cancel_other[OF inv Some]
    from iv have "animate s now (cancelAnimationFrame h st) = Some st'"
      by (simp add: DirectionFrame)
    from animate_beside[OF this] c show ?thesis
      using beside_keepsLoop[of "cancelAnimationFrame h st" st']
      by (simp add: DirectionFrame keepsLoop_def autoParams_def)
  next
    case (ResetFrame s)
    note c = cancel_other[OF inv Some]
    from iv have "animateReset s now (cancelAnimationFrame h st) = Some st'"
      by (simp add: ResetFrame)
    from animateReset_beside[OF this] c show ?thesis
      using beside_keepsLoop[of "cancelAnimationFrame h st" st']
      by (simp add: ResetFrame keepsLoop_def autoParams_def)
  qed
qed

lemma runHandles_keepsLoop:
  assumes "autoRotateInv st" "runHandles now hs st = Some st'"
  shows "keepsLoop st st'"
  using assms
proof (induction hs arbitrary: st)
  case Nil
  then show ?case by (simp add: keepsLoop_def)
next
  case (Cons h hs)
  from Cons.prems(2) obtain st1 where s: "runHandle now h st = Some st1"
    "runHandles now hs st1 = Some st'"
    by (auto simp: bind_eq_Some_conv)
  from runHandle_keepsLoop[OF Cons.prems(1) s(1)] have k: "keepsLoop st st1" .
  then have "autoRotateInv st1" by (simp add: keepsLoop_def)
  from Cons.IH[OF this s(2)] k show ?case by (rule keepsLoop_trans[rotated])
qed

lemma startAutoRotate_running:
  "autoRotateId st \<noteq> None \<Longrightarrow> startAutoRotate hS tD now st = st"
  by (simp add: startAutoRotate_def)

lemma startAutoRotate_stopped:
  assumes "autoRotateInv st" "autoRotateId st = None"
  shows "autoRotateInv (startAutoRotate hS tD now st)"
    "autoTicks (startAutoRotate hS tD now st)
       = [(nextHandle st, AutoRotateTick \<lparr>hSpeed = hS, tiltDeg = tD, elapsed = 0\<rparr>)]"
proof -
  have fresh: "nextHandle st \<notin> fst ` set (pending st)"
    using assms(1) by (auto simp: autoRotateInv_def list_all_iff)
  have lt: "list_all (\<lambda>p. fst p < Suc (nextHandle st)) (pending st)"
    using assms(1) by (auto simp: autoRotateInv_def list_all_iff less_Suc_eq)
  have e: "autoTicks st = []" using assms by (simp add: autoRotateInv_def)
  show t: "autoTicks (startAutoRotate hS tD now st)
       = [(nextHandle st, AutoRotateTick \<lparr>hSpeed = hS, tiltDeg = tD, elapsed = 0\<rparr>)]"
    using e assms(2)
    by (simp add: startAutoRotate_def Let_def requestAnimationFrame_def autoTicks_def)
  show "autoRotateInv (startAutoRotate hS tD now st)"
    unfolding autoRotateInv_def using t assms fresh lt
    by (simp add: startAutoRotate_def Let_def requestAnimationFrame_def autoRotateInv_def)
qed

lemma stopAutoRotate_inv:
  assumes "autoRotateInv st"
  shows "autoRotateInv (stopAutoRotate st)" "autoRotateId (stopAutoRotate st) = None"
    "nextHandle (stopAutoRotate st) = nextHandle st"
proof -
  show "autoRotateId (stopAutoRotate st) = None" "nextHandle (stopAutoRotate st) = nextHandle st"
    by (simp_all add: stopAutoRotate_def cancelAnimationFrame_def split: option.splits)
  show "autoRotateInv (stopAutoRotate st)"
  proof (cases "autoRotateId st")
    case None
    with assms show ?thesis by (simp add: stopAutoRotate_def)
  next
    case (Some h)
    with assms obtain a where a: "autoTicks st = [(h, AutoRotateTick a)]"
      by (auto simp: autoRotateInv_def)
    then have "(h, AutoRotateTick a) \<in> set (pending st)"
      by (metis autoTicks_def filter_is_subset list.set_intros(1) subsetD)
    moreover have d: "distinct (map fst (pending st))" using assms by (simp add: autoRotateInv_def)
    ultimately have m: "map_of (pending st) h = Some (AutoRotateTick a)" by simp
    note c = cancel_tick[OF assms m]
    show ?thesis
      unfolding autoRotateInv_def using c(3,4,5)
      by (simp add: stopAutoRotate_def Some autoTicks_def cancelAnimationFrame_def)
  qed
qed

lemma happen_keepsLoop:
  assumes inv: "autoRotateInv st" and h: "happen e st = Some st'" and ns: "e \<noteq> CallStopAutoRotate"
  shows "keepsLoop st st'"
proof (cases e)
  case (CallSetScaleRuler en i)
  with h have "setScaleRuler en i st = Some st'" by simp
  from setScaleRuler_sameSchedule[OF this] inv show ?thesis
    by (intro beside_keepsLoop sameSchedule_beside)
next
  case (CallUpdateRulerLabels w hh d uf)
  with h have "st' = updateRulerLabels w hh d uf st" by simp
  then have "besideAutoRotate st st'"
    by (simp add: besideAutoRotate_def updateRulerLabels_fields)
  then show ?thesis using inv by (rule beside_keepsLoop)
next
  case (CallSetCameraDirection tok T)
  with h have "st' = setCameraDirection tok T st" by simp
  then have "besideAutoRotate st st'"
    by (auto simp: besideAutoRotate_def setCameraDirection_def requestAnimationFrame_def
        split: option.splits)
  then show ?thesis using inv by (rule beside_keepsLoop)
next
  case (CallResetCamera T)
  with h have "st' = resetCamera T st" by simp
  then have "besideAutoRotate st st'"
    by (auto simp: besideAutoRotate_def resetCamera_def requestAnimationFrame_def)
  then show ?thesis using inv by (rule beside_keepsLoop)
next
  case (CallStartAutoRotate hS tD T)
  with h have st': "st' = startAutoRotate hS tD T st" by simp
  show ?thesis
  proof (cases "autoRotateId st")
    case None
    with inv have "autoTicks st = []" by (simp add: autoRotateInv_def)
    then have "autoParams st = None" by (simp add: autoParams_def)
    with startAutoRotate_stopped(1)[OF inv None] show ?thesis by (simp add: keepsLoop_def st')
  next
    case (Some a)
    then have "st' = st" by (simp add: st' startAutoRotate_running)
    with inv show ?thesis by (simp add: keepsLoop_def)
  qed
next
  case CallStopAutoRotate
  with ns show ?thesis by simp
next
  case LoadStarts
  with h have "st' = loadInputFiles st" by simp
  then have "besideAutoRotate st st'" by (simp add: besideAutoRotate_def loadInputFiles_fields)
  then show ?thesis using inv by (rule beside_keepsLoop)
next
  case (LoadFinishes obj fit)
  with h have "st' = onModelFinished obj fit st" by simp
  then have "besideAutoRotate st st'" by (simp add: besideAutoRotate_def onModelFinished_schedule)
  then show ?thesis using inv by (rule beside_keepsLoop)
next
  case (Frame now)
  with h have "runHandles now (map fst (pending st)) st = Some st'" by (simp add: runFrame_def)
  from runHandles_keepsLoop[OF inv this] show ?thesis .
qed

lemma happen_inv:
  assumes "autoRotateInv st" "happen e st = Some st'"
  shows "autoRotateInv st'"
proof (cases "e = CallStopAutoRotate")
  case True
  with assms show ?thesis by (auto simp: stopAutoRotate_inv)
next
  case False
  from happen_keepsLoop[OF assms False] show ?thesis by (simp add: keepsLoop_def)
qed

lemma run_inv:
  assumes "autoRotateInv st" "run es st = Some st'"
  shows "autoRotateInv st'"
  using assms
proof (induction es arbitrary: st)
  case Nil
  then show ?case by simp
next
  case (Cons e es)
  from Cons.prems(2) obtain st1 where s: "happen e st = Some st1" "run es st1 = Some st'"
    by (auto simp: bind_eq_Some_conv)
  from Cons.IH[OF happen_inv[OF Cons.prems(1) s(1)] s(2)] show ?case .
qed

lemma idleState_inv: "autoRotateInv idleState"
  by (simp add: autoRotateInv_def idleState_def autoTicks_def)

text \<open>
  Claim C10. In every state that a run of the bridge reaches from a state without
  registered callbacks and with \<^verbatim>\<open>autoRotateId\<close> null: at most one auto-rotate tick is
  registered, and one is registered exactly when \<^verbatim>\<open>autoRotateId\<close> is set; while it is set,
  \<^verbatim>\<open>startAutoRotate\<close> with any arguments changes nothing; whatever happens next except
  \<^verbatim>\<open>stopAutoRotate\<close> (a bridge call, a load, a frame in which the tick runs and registers
  itself again), the registered tick keeps its speed and tilt; and after \<^verbatim>\<open>stopAutoRotate\<close>
  a \<^verbatim>\<open>startAutoRotate\<close> registers a tick with the new arguments.
\<close>

theorem C10_auto_rotate:
  assumes "pending st0 = []" and "autoRotateId st0 = None" and "run es st0 = Some st"
  shows "length (autoTicks st) \<le> 1
    \<and> ((autoRotateId st = None) = (autoTicks st = []))
    \<and> (autoRotateId st \<noteq> None \<longrightarrow> startAutoRotate hS tD now st = st)
    \<and> (\<forall>e st'. autoParams st \<noteq> None \<and> e \<noteq> CallStopAutoRotate \<and> happen e st = Some st'
          \<longrightarrow> autoParams st' = autoParams st)
    \<and> autoTicks (startAutoRotate hS tD now (stopAutoRotate st))
         = [(nextHandle st, AutoRotateTick \<lparr>hSpeed = hS, tiltDeg = tD, elapsed = 0\<rparr>)]"
proof -
  have "autoRotateInv st0" using assms(1,2) by (simp add: autoRotateInv_def autoTicks_def)
  from run_inv[OF this assms(3)] have inv: "autoRotateInv st" .
  have a: "length (autoTicks st) \<le> 1" "(autoRotateId st = None) = (autoTicks st = [])"
    using inv by (auto simp: autoRotateInv_def split: option.splits)
  have b: "autoParams st' = autoParams st"
    if "autoParams st \<noteq> None" "e \<noteq> CallStopAutoRotate" "happen e st = Some st'" for e st'
    using happen_keepsLoop[OF inv that(3,2)] that(1) by (simp add: keepsLoop_def)
  have c: "autoTicks (startAutoRotate hS tD now (stopAutoRotate st))
         = [(nextHandle st, AutoRotateTick \<lparr>hSpeed = hS, tiltDeg = tD, elapsed = 0\<rparr>)]"
    using startAutoRotate_stopped(2)[OF stopAutoRotate_inv(1,2)[OF inv]]
    by (simp add: stopAutoRotate_inv(3)[OF inv])
  show ?thesis using a b c by (auto simp: startAutoRotate_running)
qed

theorem C10_auto_rotate_witness:
  "pending idleState = [] \<and> autoRotateId idleState = None
   \<and> (\<exists>st. run [CallStartAutoRotate 1 2 0, Frame 16, CallStartAutoRotate 5 6 20] idleState = Some st
        \<and> autoParams st = Some (1, 2) \<and> length (autoTicks st) \<le> 1 \<and> autoRotateId st \<noteq> None
        \<and> startAutoRotate 5 6 20 st = st)"
proof -
  let ?es = "[CallStartAutoRotate 1 2 0, Frame 16, CallStartAutoRotate 5 6 20]"
  have i: "pending idleState = []" "autoRotateId idleState = None" by (simp_all add: idleState_def)
  let ?st1 = "startAutoRotate 1 2 0 idleState"
  have p1: "pending ?st1 = [(0, AutoRotateTick \<lparr>hSpeed = 1, tiltDeg = 2, elapsed = 0\<rparr>)]"
    by (simp add: startAutoRotate_def Let_def requestAnimationFrame_def idleState_def)
  let ?st2 = "tick \<lparr>hSpeed = 1, tiltDeg = 2, elapsed = 0\<rparr> 16 (?st1\<lparr>pending := []\<rparr>)"
  have f: "runFrame 16 ?st1 = Some ?st2"
    by (simp add: runFrame_single[OF p1])
  have id2: "autoRotateId ?st2 \<noteq> None" by (simp add: tick_fields)
  have r: "run ?es idleState = Some ?st2"
    by (simp add: f startAutoRotate_running[OF id2])
  have ap: "autoParams ?st2 = Some (1, 2)"
    by (simp add: autoParams_def autoTicks_def tick_fields)
  from C10_auto_rotate[OF i r, of 5 6 20] id2
  have "length (autoTicks ?st2) \<le> 1" "startAutoRotate 5 6 20 ?st2 = ?st2" by blast+
  with i r ap id2 show ?thesis by blast
qed

subsection \<open>Degenerate axes\<close>

text \<open>
  An axis ruler that is bare: beyond what the group held, exactly three lines (the ruler
  line and the two end ticks) and then one sprite, which is the axis's dimension label
  with the given text; and no tick number recorded.
\<close>

definition bareRuler ::
  "(labelSprites \<Rightarrow> nat option) \<Rightarrow> string \<Rightarrow> group \<times> state \<Rightarrow> group \<times> state \<Rightarrow> bool" where
  "bareRuler slot lbl gs gs' =
    (case (gs, gs') of
      ((g, st), (g', st')) \<Rightarrow>
        take (length (children g)) (children g') = children g
        \<and> map isLine (drop (length (children g)) (children g')) = [True, True, True, False]
        \<and> last (children g') = SpriteRef (nextSprite st)
        \<and> slot (rulerLabelSprites st') = Some (nextSprite st)
        \<and> labelText (sprites st' (nextSprite st)) = lbl
        \<and> rulerTickSprites st' = rulerTickSprites st)"

lemma short_axis: "0 \<le> s \<Longrightarrow> s < 1 / 10 ^ 10 \<Longrightarrow> sqrt (s * s) < 1 / 10 ^ 10"
  by simp

lemma xAxisRuler_degenerate:
  assumes s: "getSize box = (sx, sy, sz)" and z: "sx < 1 / 10 ^ 10"
  shows "\<exists>gs'. xAxisRuler d box (g, st) = Some gs' \<and> bareRuler spriteX (toFixed2 sx) (g, st) gs'"
proof -
  obtain mx my mz where m: "bmin box = (mx, my, mz)" by (cases "bmin box") auto
  from getSize_nonneg[OF s] have n: "0 \<le> sx" by auto
  note l = short_axis[OF n z]
  have ag: "addGraduatedTicks g0 p q tickDir labelDir a b c sc st = Some (g0, st)"
    if "vlength (vsub q p) = sqrt (sx * sx)" for g0 p q tickDir labelDir a b c sc
    using addGraduatedTicks_degenerate[of q p] l that by simp
  show ?thesis
    unfolding xAxisRuler_def Let_def m s
    by (simp add: ag bareRuler_def newSprite_def addChild_def)
qed

lemma yAxisRuler_degenerate:
  assumes s: "getSize box = (sx, sy, sz)" and z: "sy < 1 / 10 ^ 10"
  shows "\<exists>gs'. yAxisRuler d box (g, st) = Some gs' \<and> bareRuler spriteY (toFixed2 sy) (g, st) gs'"
proof -
  obtain mx my mz where m: "bmin box = (mx, my, mz)" by (cases "bmin box") auto
  from getSize_nonneg[OF s] have n: "0 \<le> sy" by auto
  note l = short_axis[OF n z]
  have ag: "addGraduatedTicks g0 p q tickDir labelDir a b c sc st = Some (g0, st)"
    if "vlength (vsub q p) = sqrt (sy * sy)" for g0 p q tickDir labelDir a b c sc
    using addGraduatedTicks_degenerate[of q p] l that by simp
  show ?thesis
    unfolding yAxisRuler_def Let_def m s
    by (simp add: ag bareRuler_def newSprite_def addChild_def)
qed

lemma zAxisRuler_degenerate:
  assumes s: "getSize box = (sx, sy, sz)" and z: "sz < 1 / 10 ^ 10"
  shows "\<exists>gs'. zAxisRuler d box (g, st) = Some gs' \<and> bareRuler spriteZ (toFixed2 sz) (g, st) gs'"
proof -
  obtain mx my mz where m: "bmin box = (mx, my, mz)" by (cases "bmin box") auto
  from getSize_nonneg[OF s] have n: "0 \<le> sz" by auto
  note l = short_axis[OF n z]
  have ag: "addGraduatedTicks g0 p q tickDir labelDir a b c sc st = Some (g0, st)"
    if "vlength (vsub q p) = sqrt (sz * sz)" for g0 p q tickDir labelDir a b c sc
    using addGraduatedTicks_degenerate[of q p] l that by simp
  show ?thesis
    unfolding zAxisRuler_def Let_def m s
    by (simp add: ag bareRuler_def newSprite_def addChild_def)
qed

lemma showNat_digit: "n < 10 \<Longrightarrow> showNat n = [digitChar n]"
  by (simp add: showNat.simps)

lemma toFixed2_0: "toFixed2 0 = ''0.00''"
  by (simp add: toFixed2_def showNat_digit digitChar_def)

definition flatBox :: box3 where
  "flatBox = spanBox (0, 0, 0) (0, 0, 0)"

lemma getSize_flatBox: "getSize flatBox = (0, 0, 0)"
  by (simp add: getSize_def flatBox_def)




subsection \<open>The tick walk\<close>

text \<open>
  The loop body at each position of a list, in order; and the positions that the loop
  \<^verbatim>\<open>for (let d = 0; d <= length + step * 0.001; d += tickStep)\<close> visits.
\<close>

fun visit :: "tickWalkEnv \<Rightarrow> real list \<Rightarrow> group \<times> state \<Rightarrow> (group \<times> state) option" where
  "visit w [] gs = Some gs"
| "visit w (d # ds) gs = tickBody w d gs \<bind> visit w ds"

definition tickPositions :: "tickWalkEnv \<Rightarrow> real list" where
  "tickPositions w =
    map (\<lambda>k. real k * wTickStep w)
      [0 ..< nat (\<lfloor>(wLength w + wStep w * 0.001) / wTickStep w\<rfloor> + 1)]"

text \<open>\<^verbatim>\<open>isMajor\<close> of the loop body, line 674.\<close>

definition isMajorTick :: "tickWalkEnv \<Rightarrow> real \<Rightarrow> bool" where
  "isMajorTick w d = (\<bar>of_int (jsRound (d / wStep w)) * wStep w - d\<bar> < wStep w * 0.01)"

text \<open>What a step of the build added: the kinds of the new children, the new tick numbers.\<close>

definition addedKinds :: "group \<times> state \<Rightarrow> group \<times> state \<Rightarrow> bool list" where
  "addedKinds gs gs' = map isLine (drop (length (children (fst gs))) (children (fst gs')))"

definition addedNumbers :: "group \<times> state \<Rightarrow> group \<times> state \<Rightarrow> (real \<times> string) list" where
  "addedNumbers gs gs' =
    map (\<lambda>e. (rawValue e, labelText (sprites (snd gs') (tickSprite e))))
      (drop (length (rulerTickSprites (snd gs))) (rulerTickSprites (snd gs')))"

lemma tickWalk_visit_from:
  assumes ts: "0 < wTickStep w"
  shows "(\<forall>k<m. d + real k * wTickStep w \<le> wLength w + wStep w * 0.001)
          \<Longrightarrow> wLength w + wStep w * 0.001 < d + real m * wTickStep w
          \<Longrightarrow> tickWalk w d gs = visit w (map (\<lambda>k. d + real k * wTickStep w) [0 ..< m]) gs"
proof (induction m arbitrary: d gs)
  case 0
  then show ?case by (subst tickWalk.simps) simp
next
  case (Suc m)
  let ?t = "wTickStep w"
  from Suc.prems(1) have here: "d \<le> wLength w + wStep w * 0.001" by force
  have a: "\<forall>k<m. (d + ?t) + real k * ?t \<le> wLength w + wStep w * 0.001"
  proof (intro allI impI)
    fix k assume "k < m"
    then have "d + real (Suc k) * ?t \<le> wLength w + wStep w * 0.001"
      using Suc.prems(1) by (meson Suc_less_eq)
    then show "(d + ?t) + real k * ?t \<le> wLength w + wStep w * 0.001"
      by (simp add: algebra_simps)
  qed
  have b: "wLength w + wStep w * 0.001 < (d + ?t) + real m * ?t"
    using Suc.prems(2) by (simp add: algebra_simps)
  have l: "map (\<lambda>k. d + real k * ?t) [0 ..< Suc m]
            = d # map (\<lambda>k. (d + ?t) + real k * ?t) [0 ..< m]"
    by (simp add: upt_conv_Cons map_Suc_upt[symmetric] algebra_simps del: upt_Suc)
  have "tickWalk w d gs = tickBody w d gs \<bind> tickWalk w (d + ?t)"
    using here by (subst tickWalk.simps) simp
  also have "\<dots> = tickBody w d gs \<bind> visit w (map (\<lambda>k. (d + ?t) + real k * ?t) [0 ..< m])"
    using Suc.IH[OF a b] by (cases "tickBody w d gs") simp_all
  finally show ?case by (simp only: l visit.simps)
qed

lemma tickWalk_visit:
  assumes ts: "0 < wTickStep w"
  shows "tickWalk w 0 gs = visit w (tickPositions w) gs"
proof -
  let ?B = "wLength w + wStep w * 0.001" and ?t = "wTickStep w"
  let ?m = "nat (\<lfloor>?B / ?t\<rfloor> + 1)"
  have a: "\<forall>k<?m. 0 + real k * ?t \<le> ?B"
  proof (intro allI impI)
    fix k assume "k < ?m"
    then have "int k \<le> \<lfloor>?B / ?t\<rfloor>" by linarith
    then have "real k \<le> ?B / ?t" by (simp add: le_floor_iff)
    then show "0 + real k * ?t \<le> ?B" using ts by (simp add: pos_le_divide_eq)
  qed
  have b: "?B < 0 + real ?m * ?t"
  proof -
    have "?B / ?t < of_int (\<lfloor>?B / ?t\<rfloor> + 1)" by linarith
    also have "\<dots> \<le> real ?m" by (simp add: of_nat_nat)
    finally have "?B / ?t < real ?m" .
    then show ?thesis using ts by (simp add: pos_divide_less_eq)
  qed
  from tickWalk_visit_from[OF ts a b, of gs] show ?thesis
    by (simp add: tickPositions_def)
qed

lemma tickBody_suppressed:
  assumes "0 < wStep w" "- (1 / 10 ^ 10) \<le> d"
    and "min d (wLength w) < wStep w * 0.05 \<or> min d (wLength w) > wLength w - wStep w * 0.05"
  shows "tickBody w d gs = Some gs"
  using assms by (auto simp: tickBody_def jsDiv_def Let_def)

lemma tickBody_emitted:
  assumes "0 < wStep w" "- (1 / 10 ^ 10) \<le> d"
    and "wStep w * 0.05 \<le> min d (wLength w)" "min d (wLength w) \<le> wLength w - wStep w * 0.05"
  shows "\<exists>gs'. tickBody w d (g, st) = Some gs'
      \<and> addedKinds (g, st) gs' = (if isMajorTick w d then [True, False] else [True])
      \<and> addedNumbers (g, st) gs'
          = (if isMajorTick w d
             then [(min d (wLength w), formatTickNum (min d (wLength w)))] else [])"
  using assms
  by (auto simp: tickBody_def jsDiv_def Let_def isMajorTick_def addedKinds_def addedNumbers_def
        newSprite_def addChild_def pushTick_def)

lemma floor_log10_31_10: "\<lfloor>log 10 (31 / 10 :: real)\<rfloor> = 0"
  by (simp add: floor_eq_iff)

lemma plannedStep_31_1: "plannedStep exact 31 1 = Some 2"
  by (simp add: plannedStep_def targetDivs_def jsDiv_def niceStep_def Let_def floor_log10_31_10)

lemma sqrt_961: "sqrt 961 = 31"
  by (rule real_sqrt_unique) simp_all

lemma showNat_two: "10 \<le> n \<Longrightarrow> n < 100 \<Longrightarrow> showNat n = [digitChar (n div 10), digitChar (n mod 10)]"
  by (subst showNat.simps) (simp add: showNat_digit)

definition axis31 :: tickWalkEnv where
  "axis31 = \<lparr>wStart = (0, 0, 0), wDir = (1, 0, 0), wTickDir = (0, - 1, 0),
            wLabelOffsetDir = (0, 1, 0), wMajorLen = 1, wMinorLen = 1 / 2, wLabelOffset = 2,
            wNumScale = 1 / 3, wTickFontSize = 16, wLength = 31, wStep = 2, wTickStep = 2\<rparr>"

lemma tickPositions_axis31:
  "tickPositions axis31 = [0, 2, 4, 6, 8, 10, 12, 14, 16, 18, 20, 22, 24, 26, 28, 30]"
  by (simp add: tickPositions_def axis31_def upt_conv_Cons)

lemma formatTickNum_30: "formatTickNum 30 = ''30''"
  by (simp add: formatTickNum_def isInteger_def jsRound_def showInt_def showNat_two digitChar_def)

lemma tickBody_axis31_30:
  "map_option (\<lambda>gs'. (addedKinds (g, st) gs', addedNumbers (g, st) gs')) (tickBody axis31 30 (g, st))
    = Some ([True, False], [(30, ''30'')])"
  by (simp add: tickBody_def jsDiv_def Let_def axis31_def addedKinds_def addedNumbers_def
        newSprite_def addChild_def pushTick_def jsRound_def formatTickNum_30)

lemma formatTickNum_even:
  "formatTickNum 2 = ''2''" "formatTickNum 4 = ''4''" "formatTickNum 6 = ''6''"
  "formatTickNum 8 = ''8''" "formatTickNum 10 = ''10''" "formatTickNum 12 = ''12''"
  "formatTickNum 14 = ''14''" "formatTickNum 16 = ''16''" "formatTickNum 18 = ''18''"
  "formatTickNum 20 = ''20''" "formatTickNum 22 = ''22''" "formatTickNum 24 = ''24''"
  "formatTickNum 26 = ''26''" "formatTickNum 28 = ''28''" "formatTickNum 31 = ''31''"
  by (simp_all add: formatTickNum_def isInteger_def jsRound_def showInt_def showNat_two
        showNat_digit digitChar_def)




end
